theory Spec2Isabelle
  imports Complex_Main "HOL-Library.AList" "HOL-Library.Word"
begin

section \<open>Values exchanged on the wire\<close>

text \<open>
  Every message of the protocol is a Python dict that went through \<open>json.loads\<close> or goes
  through \<open>json.dumps\<close>. The values such a dict can hold are the JSON values; Python's
  \<open>None\<close> is \<open>JNull\<close>. A dict is an association list in insertion order. \<open>JFloat\<close>
  holds the finite floats; \<open>json.loads\<close> also reads the texts \<open>NaN\<close>, \<open>Infinity\<close> and
  \<open>-Infinity\<close>, which are no JSON, as the floats \<open>JNaN\<close> and \<open>JInfinity\<close> (the flag is
  the sign).
\<close>

datatype json =
    JNull
  | JBool bool
  | JInt int
  | JFloat rat
  | JNaN
  | JInfinity bool
  | JStr string
  | JList "json list"
  | JDict "(string \<times> json) list"

type_synonym pydict = "(string \<times> json) list"

text \<open>
  The exceptions the modelled code can raise or meet. \<open>JSONDecodeError\<close> is what
  \<open>json.loads\<close> raises on a text it cannot parse; on a text nested too deeply it raises
  \<open>RecursionError\<close>. \<open>OSError\<close> is \<open>socket.error\<close>, \<open>SocketTimeoutError\<close> its subclass
  \<open>socket.timeout\<close>; \<open>OtherError\<close> stands for any exception class not named here.
\<close>

datatype error =
    IndexError | TypeError | AttributeError | UnicodeDecodeError
  | JSONDecodeError | RecursionError
  | OSError | SocketTimeoutError
  | OtherError string

text \<open>\<open>d.get(key, default)\<close>\<close>

definition dict_get :: "pydict \<Rightarrow> string \<Rightarrow> json \<Rightarrow> json" where
  "dict_get d k dflt = (case map_of d k of None \<Rightarrow> dflt | Some v \<Rightarrow> v)"

text \<open>Lists and dicts are unhashable: using one as a dict key raises \<open>TypeError\<close>.\<close>

fun unhashable :: "json \<Rightarrow> bool" where
  "unhashable (JList _) = True"
| "unhashable (JDict _) = True"
| "unhashable _ = False"

section \<open>Server state (server.py)\<close>

text \<open>
  \<open>ClientHandler\<close>: the fields set in \<open>__init__\<close>. The socket is represented by the
  messages handed to it (see \<open>outbox\<close> below); \<open>player_id\<close> is the address of the object
  in the store.
\<close>

record client =
  username :: json
  creature :: json
  running :: bool
  in_lobby :: bool
  in_battle :: bool
  battle_id :: "string option"
  in_adventure :: bool
  adventure_id :: "string option"

text \<open>\<open>battle_data\<close> of \<open>match_players\<close>; the key \<open>"id"\<close> is \<open>battle_ident\<close>.\<close>

record battle =
  battle_ident :: string
  player1 :: string
  player2 :: string
  creature1 :: json
  creature2 :: json
  current_turn :: string
  start_time :: rat
  battle_last_activity :: rat

text \<open>\<open>party_data\<close> of \<open>create_adventure_party\<close>; the key \<open>"id"\<close> is \<open>party_ident\<close>.\<close>

record party =
  party_ident :: string
  host :: string
  members :: "string list"
  creatures :: "json list"
  usernames :: "json list"
  state :: string
  creation_time :: rat
  party_last_activity :: rat

text \<open>
  \<open>GameServer\<close>. The \<open>ClientHandler\<close> objects live in the store \<open>handlers\<close>, addressed
  by their \<open>player_id\<close> (a fresh \<open>uuid4\<close> string for each object); \<open>clients\<close> is the key
  set of the dict \<open>self.clients\<close>, whose value at a key is the object with that id.
  \<open>lobby\<close> lists the waiting handler objects by their ids. \<open>battles\<close> and
  \<open>adventure_parties\<close> are dicts in insertion order. \<open>outbox\<close> records every call of
  \<open>ClientHandler.send\<close>, in order: the receiving handler and the message.
\<close>

record server =
  handlers :: "string \<Rightarrow> client"
  clients :: "string set"
  lobby :: "string list"
  battles :: "(string \<times> battle) list"
  adventure_parties :: "(string \<times> party) list"
  outbox :: "(string \<times> json) list"

text \<open>\<open>ClientHandler.__init__\<close>\<close>

definition new_handler :: "string \<Rightarrow> client" where
  "new_handler pid =
     \<lparr> username = JStr (''Player_'' @ take 8 pid), creature = JNull, running = True,
       in_lobby = False, in_battle = False, battle_id = None,
       in_adventure = False, adventure_id = None \<rparr>"

text \<open>\<open>GameServer.__init__\<close>\<close>

definition init_server :: server where
  "init_server =
     \<lparr> handlers = new_handler, clients = {}, lobby = [], battles = [],
       adventure_parties = [], outbox = [] \<rparr>"

text \<open>The body of \<open>accept_connections\<close>: a new handler object, registered under its id.\<close>

definition accept_connection :: "string \<Rightarrow> server \<Rightarrow> server" where
  "accept_connection pid s =
     s\<lparr> handlers := (handlers s)(pid := new_handler pid), clients := insert pid (clients s) \<rparr>"

text \<open>Assignment to fields of the handler object \<open>pid\<close>.\<close>

definition upd_handler :: "string \<Rightarrow> (client \<Rightarrow> client) \<Rightarrow> server \<Rightarrow> server" where
  "upd_handler pid f s = s\<lparr> handlers := (handlers s)(pid := f (handlers s pid)) \<rparr>"

text \<open>
  \<open>ClientHandler.send\<close>: the message is serialised and written to the handler's socket; a
  failure of the socket is caught inside \<open>send\<close>. The model records the call.
\<close>

definition send :: "string \<Rightarrow> json \<Rightarrow> server \<Rightarrow> server" where
  "send pid message s = s\<lparr> outbox := outbox s @ [(pid, message)] \<rparr>"

subsection \<open>Lobby management\<close>

definition get_lobby_count :: "server \<Rightarrow> nat" where
  "get_lobby_count s = length (lobby s)"

definition lobby_status :: "rat \<Rightarrow> server \<Rightarrow> json" where
  "lobby_status now s =
     JDict [(''type'', JStr ''LOBBY_STATUS''),
            (''players_waiting'', JInt (int (length (lobby s)))),
            (''timestamp'', JFloat now)]"

definition broadcast_lobby_status :: "rat \<Rightarrow> server \<Rightarrow> server" where
  "broadcast_lobby_status now s = fold (\<lambda>c. send c (lobby_status now s)) (lobby s) s"

definition add_to_lobby :: "string \<Rightarrow> rat \<Rightarrow> server \<Rightarrow> server" where
  "add_to_lobby pid now s =
     (if pid \<notin> set (lobby s)
      then broadcast_lobby_status now (s\<lparr> lobby := lobby s @ [pid] \<rparr>)
      else s)"

definition remove_from_lobby :: "string \<Rightarrow> rat \<Rightarrow> server \<Rightarrow> server" where
  "remove_from_lobby pid now s =
     (if pid \<in> set (lobby s)
      then broadcast_lobby_status now (s\<lparr> lobby := remove1 pid (lobby s) \<rparr>)
      else s)"

subsection \<open>Matchmaking\<close>

definition battle_start :: "string \<Rightarrow> string \<Rightarrow> json \<Rightarrow> json \<Rightarrow> json" where
  "battle_start bid role mine theirs =
     JDict [(''type'', JStr ''BATTLE_START''),
            (''battle_id'', JStr bid),
            (''your_role'', JStr role),
            (''player_creature'', mine),
            (''opponent_creature'', theirs),
            (''current_turn'', JStr ''player1'')]"

text \<open>
  \<open>match_players\<close>, one pass of \<open>matchmaking_loop\<close>. \<open>bid\<close> is the string that
  \<open>uuid.uuid4()\<close> returns in this pass, \<open>now\<close> the reading of the clock.
\<close>

definition match_players :: "string \<Rightarrow> rat \<Rightarrow> server \<Rightarrow> server" where
  "match_players bid now s =
     (if length (lobby s) < 2 then s
      else
        let p1 = lobby s ! 0;
            p2 = lobby s ! 1;
            s1 = remove_from_lobby p2 now (remove_from_lobby p1 now s);
            c1 = creature (handlers s1 p1);
            c2 = creature (handlers s1 p2);
            battle_data =
              \<lparr> battle_ident = bid, player1 = p1, player2 = p2,
                creature1 = c1, creature2 = c2, current_turn = ''player1'',
                start_time = now, battle_last_activity = now \<rparr>;
            s2 = s1\<lparr> battles := AList.update bid battle_data (battles s1) \<rparr>;
            s3 = upd_handler p1 (\<lambda>c. c\<lparr> in_battle := True, battle_id := Some bid \<rparr>) s2;
            s4 = upd_handler p2 (\<lambda>c. c\<lparr> in_battle := True, battle_id := Some bid \<rparr>) s3;
            s5 = send p1 (battle_start bid ''player1'' c1 c2) s4
        in send p2 (battle_start bid ''player2'' c2 c1) s5)"

subsection \<open>Battle management\<close>

text \<open>Python's truth value of \<open>player_id\<close> in \<open>if player_id:\<close> (\<open>None\<close> and \<open>""\<close> are false).\<close>

definition truthy :: "string option \<Rightarrow> bool" where
  "truthy p = (case p of None \<Rightarrow> False | Some x \<Rightarrow> x \<noteq> [])"

definition battle_end :: "string \<Rightarrow> json \<Rightarrow> string option \<Rightarrow> json" where
  "battle_end bid winner_role player_id =
     JDict [(''type'', JStr ''BATTLE_END''),
            (''battle_id'', JStr bid),
            (''winner'', winner_role),
            (''reason'', JStr (if truthy player_id then ''disconnect'' else ''completion''))]"

text \<open>The body of the loop \<open>for pid in [player1_id, player2_id]\<close> of \<open>end_battle\<close>.\<close>

definition notify_battle_end :: "string \<Rightarrow> json \<Rightarrow> string option \<Rightarrow> string \<Rightarrow> server \<Rightarrow> server" where
  "notify_battle_end bid winner_role player_id p s =
     (if p \<in> clients s then
        (if in_battle (handlers s p) \<and> battle_id (handlers s p) = Some bid
         then send p (battle_end bid winner_role player_id)
                (upd_handler p (\<lambda>c. c\<lparr> in_battle := False, battle_id := None \<rparr>) s)
         else s)
      else s)"

text \<open>
  \<open>end_battle(battle_id, player_id=None)\<close>. The caller passes a handler's \<open>battle_id\<close>
  field, which is \<open>None\<close> or a string; \<open>None\<close> is a key of no dict.
\<close>

definition end_battle :: "string option \<Rightarrow> string option \<Rightarrow> server \<Rightarrow> server" where
  "end_battle battle_key player_id s =
     (case battle_key of
        None \<Rightarrow> s
      | Some bid \<Rightarrow>
         (case map_of (battles s) bid of
            None \<Rightarrow> s
          | Some bt \<Rightarrow>
             let winner_role =
                   (if truthy player_id
                    then (if player_id = Some (player1 bt) then JStr ''player2'' else JStr ''player1'')
                    else JNull);
                 s1 = fold (notify_battle_end bid winner_role player_id) [player1 bt, player2 bt] s
             in s1\<lparr> battles := AList.delete bid (battles s1) \<rparr>))"

definition battle_action :: "string \<Rightarrow> json \<Rightarrow> string \<Rightarrow> json" where
  "battle_action bid ability_index opponent_role =
     JDict [(''type'', JStr ''BATTLE_ACTION''),
            (''battle_id'', JStr bid),
            (''ability_index'', ability_index),
            (''current_turn'', JStr opponent_role)]"

definition process_battle_action :: "string option \<Rightarrow> string \<Rightarrow> json \<Rightarrow> rat \<Rightarrow> server \<Rightarrow> server" where
  "process_battle_action battle_key pid ability_index now s =
     (case battle_key of
        None \<Rightarrow> s
      | Some bid \<Rightarrow>
         (case map_of (battles s) bid of
            None \<Rightarrow> s
          | Some bt0 \<Rightarrow>
             let bt = bt0\<lparr> battle_last_activity := now \<rparr>;
                 s1 = s\<lparr> battles := AList.update bid bt (battles s) \<rparr>;
                 player_role = (if pid = player1 bt then ''player1'' else ''player2'');
                 opponent_role = (if player_role = ''player1'' then ''player2'' else ''player1'');
                 opponent_id = (if player_role = ''player1'' then player2 bt else player1 bt)
             in if current_turn bt \<noteq> player_role then s1
                else if opponent_id \<notin> clients s1 then end_battle (Some bid) (Some pid) s1
                else send opponent_id (battle_action bid ability_index opponent_role)
                       (s1\<lparr> battles :=
                              AList.update bid (bt\<lparr> current_turn := opponent_role \<rparr>) (battles s1) \<rparr>)))"

subsection \<open>Adventure management\<close>

text \<open>\<open>aid\<close> is the string that \<open>uuid.uuid4()\<close> returns; it is also the value returned.\<close>

definition create_adventure_party :: "string \<Rightarrow> string \<Rightarrow> rat \<Rightarrow> server \<Rightarrow> server" where
  "create_adventure_party aid pid now s =
     s\<lparr> adventure_parties :=
          AList.update aid
            \<lparr> party_ident = aid, host = pid, members = [pid],
              creatures = [creature (handlers s pid)],
              usernames = [username (handlers s pid)],
              state = ''waiting'', creation_time = now, party_last_activity = now \<rparr>
            (adventure_parties s) \<rparr>"

definition party_update :: "string \<Rightarrow> party \<Rightarrow> rat \<Rightarrow> json" where
  "party_update aid p now =
     JDict [(''type'', JStr ''ADVENTURE_PARTY_UPDATE''),
            (''adventure_id'', JStr aid),
            (''members'', JList (map JStr (members p))),
            (''creatures'', JList (creatures p)),
            (''usernames'', JList (usernames p)),
            (''host'', JStr (host p)),
            (''state'', JStr (state p)),
            (''timestamp'', JFloat now)]"

definition party_start :: "string \<Rightarrow> party \<Rightarrow> rat \<Rightarrow> json" where
  "party_start aid p now =
     JDict [(''type'', JStr ''ADVENTURE_START''),
            (''adventure_id'', JStr aid),
            (''members'', JList (map JStr (members p))),
            (''creatures'', JList (creatures p)),
            (''usernames'', JList (usernames p)),
            (''host'', JStr (host p)),
            (''timestamp'', JFloat now)]"

text \<open>The loop \<open>for member_id in party["members"]: if member_id in self.clients: ...send\<close>.\<close>

definition send_members :: "string list \<Rightarrow> json \<Rightarrow> server \<Rightarrow> server" where
  "send_members ms message s =
     fold (\<lambda>member_id s'. if member_id \<in> clients s' then send member_id message s' else s') ms s"

definition broadcast_adventure_update :: "string \<Rightarrow> rat \<Rightarrow> server \<Rightarrow> server" where
  "broadcast_adventure_update aid now s =
     (case map_of (adventure_parties s) aid of
        None \<Rightarrow> s
      | Some p \<Rightarrow> send_members (members p) (party_update aid p now) s)"

definition broadcast_adventure_start :: "string \<Rightarrow> rat \<Rightarrow> server \<Rightarrow> server" where
  "broadcast_adventure_start aid now s =
     (case map_of (adventure_parties s) aid of
        None \<Rightarrow> s
      | Some p \<Rightarrow> send_members (members p) (party_start aid p now) s)"

text \<open>
  \<open>join_adventure_party(party_id, client)\<close>. \<open>party_id\<close> is whatever the client's message
  holds under \<open>"party_id"\<close>: the membership test raises \<open>TypeError\<close> on an unhashable value,
  and a value that is no string equals no key.
\<close>

definition join_adventure_party :: "json \<Rightarrow> string \<Rightarrow> rat \<Rightarrow> server \<Rightarrow> (error + bool) \<times> server" where
  "join_adventure_party party_id pid now s =
     (if unhashable party_id then (Inl TypeError, s)
      else
        (case party_id of
           JStr aid \<Rightarrow>
             (case map_of (adventure_parties s) aid of
                None \<Rightarrow> (Inr False, s)
              | Some p \<Rightarrow>
                 if length (members p) \<ge> 4 then (Inr False, s)
                 else if state p \<noteq> ''waiting'' then (Inr False, s)
                 else
                   let p1 = p\<lparr> members := members p @ [pid],
                               creatures := creatures p @ [creature (handlers s pid)],
                               usernames := usernames p @ [username (handlers s pid)],
                               party_last_activity := now \<rparr>;
                       s1 = broadcast_adventure_update aid now
                              (s\<lparr> adventure_parties := AList.update aid p1 (adventure_parties s) \<rparr>)
                   in if length (members p1) \<ge> 2
                      then (Inr True,
                            broadcast_adventure_start aid now
                              (s1\<lparr> adventure_parties :=
                                     AList.update aid (p1\<lparr> state := ''active'' \<rparr>) (adventure_parties s1) \<rparr>))
                      else (Inr True, s1))
         | _ \<Rightarrow> (Inr False, s)))"

text \<open>
  The two parts of \<open>join_adventure_party\<close> between which its thread can be suspended. The
  first part is the function up to and including \<open>broadcast_adventure_update\<close>: the
  tests, the three \<open>append\<close>s and the sends to the members, which block. The second part
  is what follows: \<open>if len(party["members"]) >= 2\<close>, the assignment of \<open>"active"\<close> and
  \<open>broadcast_adventure_start\<close>. It reads the party again, as other threads have left
  it; a party deleted in the meantime is an object no dict holds any more, and
  \<open>broadcast_adventure_start\<close> finds no party under the id.
\<close>

definition join_adventure_party_begin :: "json \<Rightarrow> string \<Rightarrow> rat \<Rightarrow> server \<Rightarrow> (error + bool) \<times> server" where
  "join_adventure_party_begin party_id pid now s =
     (if unhashable party_id then (Inl TypeError, s)
      else
        (case party_id of
           JStr aid \<Rightarrow>
             (case map_of (adventure_parties s) aid of
                None \<Rightarrow> (Inr False, s)
              | Some p \<Rightarrow>
                 if length (members p) \<ge> 4 then (Inr False, s)
                 else if state p \<noteq> ''waiting'' then (Inr False, s)
                 else
                   let p1 = p\<lparr> members := members p @ [pid],
                               creatures := creatures p @ [creature (handlers s pid)],
                               usernames := usernames p @ [username (handlers s pid)],
                               party_last_activity := now \<rparr>
                   in (Inr True,
                       broadcast_adventure_update aid now
                         (s\<lparr> adventure_parties := AList.update aid p1 (adventure_parties s) \<rparr>)))
         | _ \<Rightarrow> (Inr False, s)))"

definition join_adventure_party_finish :: "string \<Rightarrow> rat \<Rightarrow> server \<Rightarrow> server" where
  "join_adventure_party_finish aid now s =
     (case map_of (adventure_parties s) aid of
        None \<Rightarrow> s
      | Some p \<Rightarrow>
         if length (members p) \<ge> 2
         then broadcast_adventure_start aid now
                (s\<lparr> adventure_parties :=
                       AList.update aid (p\<lparr> state := ''active'' \<rparr>) (adventure_parties s) \<rparr>)
         else s)"

text \<open>\<open>xs.index(x)\<close> for an \<open>x\<close> that occurs in \<open>xs\<close>, and \<open>xs.pop(i)\<close>.\<close>

primrec index_of :: "'a \<Rightarrow> 'a list \<Rightarrow> nat" where
  "index_of x [] = 0"
| "index_of x (y # ys) = (if x = y then 0 else Suc (index_of x ys))"

definition pop :: "nat \<Rightarrow> 'a list \<Rightarrow> error + 'a list" where
  "pop i xs = (if i < length xs then Inr (take i xs @ drop (Suc i) xs) else Inl IndexError)"

text \<open>
  \<open>remove_from_adventure(adventure_id, player_id)\<close>. The result is the exception raised,
  if any, and the state at that point: the three lists are popped one after the other, and
  a list shorter than \<open>members\<close> raises \<open>IndexError\<close> after the earlier ones were changed.
\<close>

definition remove_from_adventure :: "string option \<Rightarrow> string \<Rightarrow> rat \<Rightarrow> server \<Rightarrow> error option \<times> server" where
  "remove_from_adventure adventure_key pid now s =
     (case adventure_key of
        None \<Rightarrow> (None, s)
      | Some aid \<Rightarrow>
         (case map_of (adventure_parties s) aid of
            None \<Rightarrow> (None, s)
          | Some p \<Rightarrow>
             if pid \<notin> set (members p) then (None, s)
             else
               let index = index_of pid (members p);
                   p1 = p\<lparr> members := take index (members p) @ drop (Suc index) (members p) \<rparr>;
                   s1 = s\<lparr> adventure_parties := AList.update aid p1 (adventure_parties s) \<rparr>
               in (case pop index (creatures p1) of
                     Inl e \<Rightarrow> (Some e, s1)
                   | Inr cs \<Rightarrow>
                      let p2 = p1\<lparr> creatures := cs \<rparr>;
                          s2 = s\<lparr> adventure_parties := AList.update aid p2 (adventure_parties s) \<rparr>
                      in (case pop index (usernames p2) of
                            Inl e \<Rightarrow> (Some e, s2)
                          | Inr us \<Rightarrow>
                             let p3 = p2\<lparr> usernames := us, party_last_activity := now \<rparr>
                             in if members p3 = []
                                then (None, s\<lparr> adventure_parties := AList.delete aid (adventure_parties s) \<rparr>)
                                else
                                  let p4 = (if pid = host p3 then p3\<lparr> host := members p3 ! 0 \<rparr> else p3)
                                  in (None,
                                      broadcast_adventure_update aid now
                                        (s\<lparr> adventure_parties :=
                                             AList.update aid p4 (adventure_parties s) \<rparr>))))))"

definition adventure_update :: "string \<Rightarrow> string \<Rightarrow> json \<Rightarrow> rat \<Rightarrow> json" where
  "adventure_update aid pid update_data now =
     JDict [(''type'', JStr ''ADVENTURE_UPDATE''),
            (''adventure_id'', JStr aid),
            (''from_player'', JStr pid),
            (''data'', update_data),
            (''timestamp'', JFloat now)]"

definition process_adventure_update :: "string option \<Rightarrow> string \<Rightarrow> json \<Rightarrow> rat \<Rightarrow> server \<Rightarrow> server" where
  "process_adventure_update adventure_key pid update_data now s =
     (case adventure_key of
        None \<Rightarrow> s
      | Some aid \<Rightarrow>
         (case map_of (adventure_parties s) aid of
            None \<Rightarrow> s
          | Some p \<Rightarrow>
             if pid \<notin> set (members p) then s
             else
               let p1 = p\<lparr> party_last_activity := now \<rparr>;
                   s1 = s\<lparr> adventure_parties := AList.update aid p1 (adventure_parties s) \<rparr>
               in fold (\<lambda>member_id s'.
                          if member_id \<noteq> pid \<and> member_id \<in> clients s'
                          then send member_id (adventure_update aid pid update_data now) s'
                          else s')
                    (members p1) s1))"

definition party_entry :: "string \<Rightarrow> party \<Rightarrow> json \<Rightarrow> json" where
  "party_entry aid p host_username =
     JDict [(''id'', JStr aid),
            (''host'', JStr (host p)),
            (''host_username'', host_username),
            (''member_count'', JInt (int (length (members p)))),
            (''creation_time'', JFloat (creation_time p))]"

text \<open>
  The loop of \<open>get_adventure_parties\<close> over \<open>self.adventure_parties.items()\<close>;
  \<open>party["usernames"][0]\<close> raises \<open>IndexError\<close> on an empty list.
\<close>

fun list_parties :: "(string \<times> party) list \<Rightarrow> error + json list" where
  "list_parties [] = Inr []"
| "list_parties ((aid, p) # rest) =
     (if state p = ''waiting'' then
        (case usernames p of
           [] \<Rightarrow> Inl IndexError
         | u # _ \<Rightarrow>
            (case list_parties rest of
               Inl e \<Rightarrow> Inl e
             | Inr l \<Rightarrow> Inr (party_entry aid p u # l)))
      else list_parties rest)"

definition get_adventure_parties :: "server \<Rightarrow> error + json list" where
  "get_adventure_parties s = list_parties (adventure_parties s)"

subsection \<open>Message handlers of \<open>ClientHandler\<close>\<close>

definition handle_join_lobby :: "string \<Rightarrow> pydict \<Rightarrow> rat \<Rightarrow> server \<Rightarrow> server" where
  "handle_join_lobby pid data now s =
     (let s1 = upd_handler pid (\<lambda>c. c\<lparr> creature := dict_get data ''creature'' (JDict []) \<rparr>) s;
          s2 = (case map_of data ''username'' of
                  None \<Rightarrow> s1
                | Some u \<Rightarrow> upd_handler pid (\<lambda>c. c\<lparr> username := u \<rparr>) s1);
          s3 = upd_handler pid (\<lambda>c. c\<lparr> in_lobby := True \<rparr>) (add_to_lobby pid now s2)
      in send pid
           (JDict [(''type'', JStr ''LOBBY_JOINED''),
                   (''player_id'', JStr pid),
                   (''username'', username (handlers s3 pid)),
                   (''players_waiting'', JInt (int (get_lobby_count s3)))])
           s3)"

definition handle_leave_lobby :: "string \<Rightarrow> rat \<Rightarrow> server \<Rightarrow> server" where
  "handle_leave_lobby pid now s =
     (if in_lobby (handlers s pid)
      then send pid (JDict [(''type'', JStr ''LOBBY_LEFT''), (''player_id'', JStr pid)])
             (upd_handler pid (\<lambda>c. c\<lparr> in_lobby := False \<rparr>) (remove_from_lobby pid now s))
      else s)"

definition handle_battle_action :: "string \<Rightarrow> pydict \<Rightarrow> rat \<Rightarrow> server \<Rightarrow> server" where
  "handle_battle_action pid data now s =
     (if \<not> in_battle (handlers s pid) then s
      else process_battle_action (battle_id (handlers s pid)) pid
             (dict_get data ''ability_index'' (JInt 0)) now s)"

definition handle_create_adventure :: "string \<Rightarrow> pydict \<Rightarrow> string \<Rightarrow> rat \<Rightarrow> server \<Rightarrow> server" where
  "handle_create_adventure pid data aid now s =
     (let s1 = upd_handler pid (\<lambda>c. c\<lparr> creature := dict_get data ''creature'' (JDict []) \<rparr>) s;
          s2 = create_adventure_party aid pid now s1;
          s3 = upd_handler pid (\<lambda>c. c\<lparr> adventure_id := Some aid, in_adventure := True \<rparr>) s2
      in send pid
           (JDict [(''type'', JStr ''ADVENTURE_CREATED''),
                   (''adventure_id'', JStr aid),
                   (''player_id'', JStr pid)])
           s3)"

text \<open>The key a handler stores in \<open>adventure_id\<close>: a join succeeds on string keys only.\<close>

fun key_of :: "json \<Rightarrow> string option" where
  "key_of (JStr a) = Some a"
| "key_of _ = None"

definition join_failed :: "json \<Rightarrow> json" where
  "join_failed party_id =
     JDict [(''type'', JStr ''ADVENTURE_JOIN_FAILED''),
            (''adventure_id'', party_id),
            (''message'', JStr ''Failed to join adventure party'')]"

definition handle_join_adventure :: "string \<Rightarrow> pydict \<Rightarrow> rat \<Rightarrow> server \<Rightarrow> error option \<times> server" where
  "handle_join_adventure pid data now s =
     (let s1 = upd_handler pid (\<lambda>c. c\<lparr> creature := dict_get data ''creature'' (JDict []) \<rparr>) s;
          party_id = dict_get data ''party_id'' (JStr [])
      in (case join_adventure_party party_id pid now s1 of
            (Inl e, s2) \<Rightarrow> (Some e, s2)
          | (Inr success, s2) \<Rightarrow>
              if success
              then (None,
                    send pid
                      (JDict [(''type'', JStr ''ADVENTURE_JOINED''),
                              (''adventure_id'', party_id),
                              (''player_id'', JStr pid)])
                      (upd_handler pid
                         (\<lambda>c. c\<lparr> adventure_id := key_of party_id, in_adventure := True \<rparr>) s2))
              else (None, send pid (join_failed party_id) s2)))"

definition handle_adventure_update :: "string \<Rightarrow> pydict \<Rightarrow> rat \<Rightarrow> server \<Rightarrow> server" where
  "handle_adventure_update pid data now s =
     (if \<not> in_adventure (handlers s pid) then s
      else process_adventure_update (adventure_id (handlers s pid)) pid
             (dict_get data ''data'' (JDict [])) now s)"

definition handle_get_adventure_parties :: "string \<Rightarrow> server \<Rightarrow> error option \<times> server" where
  "handle_get_adventure_parties pid s =
     (case get_adventure_parties s of
        Inl e \<Rightarrow> (Some e, s)
      | Inr parties \<Rightarrow>
          (None, send pid (JDict [(''type'', JStr ''ADVENTURE_PARTIES''), (''parties'', JList parties)]) s))"

subsection \<open>\<open>process_message\<close> and \<open>clean_up\<close>\<close>

text \<open>The lines \<open>process_message\<close> itself prints.\<close>

datatype log_line =
    Received json
  | UnknownType json
  | ErrorDecodingJSON string
  | ErrorProcessing error

text \<open>
  The \<open>try\<close> body of \<open>process_message\<close> after \<open>json.loads\<close> has returned \<open>data\<close>.
  \<open>data.get\<close> raises \<open>AttributeError\<close> unless \<open>data\<close> is a dict; every exception is caught
  by \<open>except Exception\<close> and printed. \<open>uuid\<close> is what \<open>uuid.uuid4()\<close> returns if the handler
  calls it, \<open>now\<close> the reading of the clock.
\<close>

definition dispatch :: "string \<Rightarrow> rat \<Rightarrow> string \<Rightarrow> json \<Rightarrow> server \<Rightarrow> log_line list \<times> server" where
  "dispatch pid now uuid data s =
     (case data of
        JDict d \<Rightarrow>
          let message_type = dict_get d ''type'' (JStr []) in
          if message_type = JStr ''JOIN_LOBBY''
            then ([Received message_type], handle_join_lobby pid d now s)
          else if message_type = JStr ''LEAVE_LOBBY''
            then ([Received message_type], handle_leave_lobby pid now s)
          else if message_type = JStr ''BATTLE_ACTION''
            then ([Received message_type], handle_battle_action pid d now s)
          else if message_type = JStr ''CREATE_ADVENTURE''
            then ([Received message_type], handle_create_adventure pid d uuid now s)
          else if message_type = JStr ''JOIN_ADVENTURE''
            then (case handle_join_adventure pid d now s of
                    (None, s') \<Rightarrow> ([Received message_type], s')
                  | (Some e, s') \<Rightarrow> ([Received message_type, ErrorProcessing e], s'))
          else if message_type = JStr ''ADVENTURE_UPDATE''
            then ([Received message_type], handle_adventure_update pid d now s)
          else if message_type = JStr ''GET_ADVENTURE_PARTIES''
            then (case handle_get_adventure_parties pid s of
                    (None, s') \<Rightarrow> ([Received message_type], s')
                  | (Some e, s') \<Rightarrow> ([Received message_type, ErrorProcessing e], s'))
          else ([Received message_type, UnknownType message_type], s)
      | _ \<Rightarrow> ([ErrorProcessing AttributeError], s))"

text \<open>
  \<open>process_message(message)\<close>; \<open>loads\<close> is \<open>json.loads\<close>, which returns a value or
  raises. \<open>except json.JSONDecodeError\<close> comes first, \<open>except Exception\<close> takes every
  other exception.
\<close>

definition process_message ::
  "(string \<Rightarrow> error + json) \<Rightarrow> string \<Rightarrow> rat \<Rightarrow> string \<Rightarrow> string \<Rightarrow> server \<Rightarrow> log_line list \<times> server" where
  "process_message loads pid now uuid message s =
     (case loads message of
        Inl e \<Rightarrow> if e = JSONDecodeError then ([ErrorDecodingJSON message], s)
                 else ([ErrorProcessing e], s)
      | Inr data \<Rightarrow> dispatch pid now uuid data s)"

text \<open>
  \<open>clean_up\<close>: an exception of \<open>remove_from_adventure\<close> leaves it before the socket is
  closed and \<open>running\<close> is cleared.
\<close>

definition clean_up :: "string \<Rightarrow> rat \<Rightarrow> server \<Rightarrow> error option \<times> server" where
  "clean_up pid now s =
     (let s1 = (if in_lobby (handlers s pid) then remove_from_lobby pid now s else s);
          s2 = (if in_battle (handlers s1 pid)
                then end_battle (battle_id (handlers s1 pid)) (Some pid) s1 else s1)
      in if in_adventure (handlers s2 pid)
         then (case remove_from_adventure (adventure_id (handlers s2 pid)) pid now s2 of
                 (Some e, s3) \<Rightarrow> (Some e, s3)
               | (None, s3) \<Rightarrow> (None, upd_handler pid (\<lambda>c. c\<lparr> running := False \<rparr>) s3))
         else (None, upd_handler pid (\<lambda>c. c\<lparr> running := False \<rparr>) s2))"

subsection \<open>Runs of the server\<close>

text \<open>
  What can happen to the server: a connection is accepted (with the id \<open>uuid4\<close> gave the
  handler), a handler's thread processes one decoded message, the matchmaking thread makes one
  pass, a handler's thread leaves its loop and cleans up.
\<close>

datatype event =
    Accept string
  | Frame string rat string json
  | Match string rat
  | Disconnect string rat

fun step :: "event \<Rightarrow> server \<Rightarrow> server" where
  "step (Accept pid) s = accept_connection pid s"
| "step (Frame pid now uuid data) s = snd (dispatch pid now uuid data s)"
| "step (Match bid now) s = match_players bid now s"
| "step (Disconnect pid now) s = snd (clean_up pid now s)"

text \<open>The events in the order they happen: \<open>run_events [e1, e2] s = step e2 (step e1 s)\<close>.\<close>

definition run_events :: "event list \<Rightarrow> server \<Rightarrow> server" where
  "run_events evs s = fold step evs s"

text \<open>
  An event can happen in a state when the ids drawn from \<open>uuid4\<close> are new non-empty
  strings, and messages and disconnects come from registered handlers whose thread is still
  in its loop.
\<close>

fun enabled :: "event \<Rightarrow> server \<Rightarrow> bool" where
  "enabled (Accept pid) s = (pid \<noteq> [] \<and> pid \<notin> clients s)"
| "enabled (Frame pid now uuid data) s =
     (pid \<in> clients s \<and> running (handlers s pid) \<and> uuid \<notin> fst ` set (adventure_parties s))"
| "enabled (Match bid now) s = (bid \<notin> fst ` set (battles s))"
| "enabled (Disconnect pid now) s = (pid \<in> clients s \<and> running (handlers s pid))"

text \<open>
  The server starts one thread for each connection and one for matchmaking
  (\<open>threading.Thread\<close> in \<open>start\<close> and in the accept loop) and takes no lock. \<open>step\<close>
  runs a whole handler call, matchmaking pass or clean-up at once, so the states below are
  those of the serial executions: the ones in which every such call runs to completion
  before the next begins. They are not all the states the server can be in: a thread that
  blocks in \<open>sendall\<close> lets another thread run in the middle of its call (see
  \<open>join_adventure_party_begin\<close>).
\<close>

inductive serial :: "server \<Rightarrow> bool" where
  serial_init: "serial init_server"
| serial_step: "serial s \<Longrightarrow> enabled e s \<Longrightarrow> serial (step e s)"

section \<open>Framing: bytes, text and frames\<close>

text \<open>
  Both ends read the socket in chunks, decode each chunk with \<open>bytes.decode()\<close>, append
  the text to a buffer and cut the buffer at every newline. \<open>bytes.decode\<close>,
  \<open>str.encode\<close>, \<open>json.loads\<close> and \<open>json.dumps\<close> are library functions: the
  operations below take them as the parameters \<open>dec\<close> (\<open>None\<close> for
  \<open>UnicodeDecodeError\<close>), \<open>enc\<close>, \<open>loads\<close> (the value returned, or the exception
  raised) and \<open>dumps\<close>.
\<close>

type_synonym byte = "8 word"

text \<open>What \<open>recv(4096)\<close> does: it returns bytes (none when the peer has closed), or raises.\<close>

datatype recv = Data "byte list" | SocketTimeout | SocketError

text \<open>\<open>buffer.split('\n', 1)\<close> when \<open>'\n' in buffer\<close>: the text before the first newline and the text after it.\<close>

fun split_nl :: "string \<Rightarrow> (string \<times> string) option" where
  "split_nl [] = None"
| "split_nl (c # cs) =
     (if c = CHR 0x0A then Some ([], cs)
      else (case split_nl cs of None \<Rightarrow> None | Some (m, r) \<Rightarrow> Some (c # m, r)))"

subsection \<open>The read loop of \<open>ClientHandler.run\<close>\<close>

text \<open>
  The loop \<open>while '\n' in buffer\<close> of \<open>run\<close>. The \<open>i\<close>-th message processed on this
  connection reads the clock and, if it creates a party, \<open>uuid4\<close>: \<open>env i\<close> is what they
  return. The result is what \<open>process_message\<close> printed, the buffer left and the state.
\<close>

function run_frames ::
  "(string \<Rightarrow> error + json) \<Rightarrow> string \<Rightarrow> (nat \<Rightarrow> rat \<times> string) \<Rightarrow> nat \<Rightarrow> string \<Rightarrow> server
     \<Rightarrow> log_line list \<times> string \<times> server" where
  "run_frames loads pid env i buffer s =
     (case split_nl buffer of
        None \<Rightarrow> ([], buffer, s)
      | Some (message, rest) \<Rightarrow>
          (case process_message loads pid (fst (env i)) (snd (env i)) message s of
             (l1, s1) \<Rightarrow>
               (case run_frames loads pid env (Suc i) rest s1 of
                  (l2, b, s2) \<Rightarrow> (l1 @ l2, b, s2))))"
  by pat_completeness auto
termination
proof (relation "measure (\<lambda>(loads, pid, env, i, buffer, s). length buffer)")
  show "wf (measure (\<lambda>(loads, pid, env, i, buffer, s). length buffer))" by simp
next
  fix loads :: "string \<Rightarrow> error + json" and pid env i buffer s x2 message rest x l1 s1
  assume "split_nl buffer = Some x2" "(message, rest) = x2"
  then have "split_nl buffer = Some (message, rest)" by simp
  then have "length rest < length buffer"
    by (induction buffer arbitrary: message) (auto split: if_splits option.splits)
  then show "((loads, pid, env, Suc i, rest, s1), (loads, pid, env, i, buffer, s))
      \<in> measure (\<lambda>(loads, pid, env, i, buffer, s). length buffer)"
    by simp
qed

declare run_frames.simps [simp del]

text \<open>
  One pass of the outer loop of \<open>run\<close> on what \<open>recv\<close> did. The thread either stays in the
  loop, with what was printed, the buffer and the state, or leaves it (no data, or any
  exception, among them \<open>UnicodeDecodeError\<close> of \<open>data.decode()\<close>) and runs
  \<open>clean_up\<close>, which closes the connection.
\<close>

datatype connection =
    Open "log_line list" string server
  | Closed "error option" server

definition run_step ::
  "(byte list \<Rightarrow> string option) \<Rightarrow> (string \<Rightarrow> error + json) \<Rightarrow> string \<Rightarrow> (nat \<Rightarrow> rat \<times> string)
     \<Rightarrow> nat \<Rightarrow> recv \<Rightarrow> string \<Rightarrow> server \<Rightarrow> connection" where
  "run_step dec loads pid env i r buffer s =
     (case r of
        Data bs \<Rightarrow>
          if bs = [] then (case clean_up pid (fst (env i)) s of (e, s') \<Rightarrow> Closed e s')
          else (case dec bs of
                  None \<Rightarrow> (case clean_up pid (fst (env i)) s of (e, s') \<Rightarrow> Closed e s')
                | Some text \<Rightarrow>
                    (case run_frames loads pid env i (buffer @ text) s of
                       (l, b, s') \<Rightarrow> Open l b s'))
      | _ \<Rightarrow> (case clean_up pid (fst (env i)) s of (e, s') \<Rightarrow> Closed e s'))"

section \<open>The client transport (network.py)\<close>

text \<open>
  \<open>NetworkClient\<close>: the two flags and the two queues. \<open>called\<close> records the messages for
  which a registered callback was called, in order. The callbacks are code of the user
  interface: \<open>cbs t\<close> is the callback registered for type \<open>t\<close>, if any, and its value on
  a message is the exception it raises, if any.
\<close>

record net_client =
  connected :: bool
  nc_running :: bool
  send_queue :: "string list"
  receive_queue :: "json list"
  called :: "json list"

type_synonym callbacks = "string \<Rightarrow> (json \<Rightarrow> error option) option"

text \<open>\<open>send(message)\<close> for a dict, the only kind of message the high-level functions pass.\<close>

definition nc_send :: "(json \<Rightarrow> string) \<Rightarrow> pydict \<Rightarrow> net_client \<Rightarrow> bool \<times> net_client" where
  "nc_send dumps message c =
     (if \<not> connected c then (False, c)
      else (True, c\<lparr> send_queue := send_queue c @ [dumps (JDict message)] \<rparr>))"

text \<open>
  One pass of \<open>_send_loop\<close> when \<open>sendall\<close> succeeds: the bytes written to the socket.
  Nothing is written when the queue is empty (\<open>queue.Empty\<close>).
\<close>

definition send_loop_step :: "(string \<Rightarrow> byte list) \<Rightarrow> net_client \<Rightarrow> byte list \<times> net_client" where
  "send_loop_step enc c =
     (case send_queue c of
        [] \<Rightarrow> ([], c)
      | message # q \<Rightarrow> (enc (message @ [CHR 0x0A]), c\<lparr> send_queue := q \<rparr>))"

text \<open>The lines \<open>_receive_loop\<close> prints.\<close>

datatype client_log =
    ClientReceived string
  | ClientErrorDecodingJSON string
  | ClientErrorReceiving error
  | ClientConnectionClosed
  | ClientConnectionLost

text \<open>\<open>message_type in self.callbacks\<close> and \<open>self.callbacks[message_type]\<close>, for a hashable type.\<close>

definition callback_for :: "callbacks \<Rightarrow> json \<Rightarrow> (json \<Rightarrow> error option) option" where
  "callback_for cbs message_type = (case message_type of JStr t \<Rightarrow> cbs t | _ \<Rightarrow> None)"

text \<open>
  The loop \<open>while '\n' in buffer\<close> of \<open>_receive_loop\<close>. The \<open>try\<close> inside the loop holds
  \<open>json.loads\<close>, the \<open>put\<close> and the callback, and its only handler is
  \<open>except json.JSONDecodeError\<close>: an exception of that class is printed and the loop goes
  on with the next frame. Any other exception leaves the loop with the rest of the buffer
  unparsed: another exception of \<open>json.loads\<close> (\<open>RecursionError\<close>), \<open>.get\<close> on a value
  that is no dict (\<open>AttributeError\<close>), an unhashable type (\<open>TypeError\<close>), an exception of
  a callback. The result is what was printed, the exception that left the loop, if any,
  the buffer and the client.
\<close>

function receive_loop_frames ::
  "(string \<Rightarrow> error + json) \<Rightarrow> callbacks \<Rightarrow> string \<Rightarrow> net_client
     \<Rightarrow> client_log list \<times> error option \<times> string \<times> net_client" where
  "receive_loop_frames loads cbs buffer c =
     (case split_nl buffer of
        None \<Rightarrow> ([], None, buffer, c)
      | Some (message, rest) \<Rightarrow>
          (case loads message of
             Inl e \<Rightarrow>
               if e = JSONDecodeError
               then (case receive_loop_frames loads cbs rest c of
                       (l, r) \<Rightarrow> (ClientErrorDecodingJSON message # l, r))
               else ([], Some e, rest, c)
           | Inr message_obj \<Rightarrow>
               (case message_obj of
                  JDict d \<Rightarrow>
                    if unhashable (dict_get d ''type'' (JStr []))
                    then ([], Some TypeError, rest,
                          c\<lparr> receive_queue := receive_queue c @ [message_obj] \<rparr>)
                    else
                      (case callback_for cbs (dict_get d ''type'' (JStr [])) of
                         None \<Rightarrow>
                           (case receive_loop_frames loads cbs rest
                                   (c\<lparr> receive_queue := receive_queue c @ [message_obj] \<rparr>) of
                              (l, r) \<Rightarrow> (ClientReceived (take 100 message) # l, r))
                       | Some cb \<Rightarrow>
                           (case cb message_obj of
                              Some e \<Rightarrow>
                                if e = JSONDecodeError
                                then (case receive_loop_frames loads cbs rest
                                             (c\<lparr> receive_queue := receive_queue c @ [message_obj],
                                                called := called c @ [message_obj] \<rparr>) of
                                        (l, r) \<Rightarrow> (ClientErrorDecodingJSON message # l, r))
                                else ([], Some e, rest,
                                      c\<lparr> receive_queue := receive_queue c @ [message_obj],
                                         called := called c @ [message_obj] \<rparr>)
                            | None \<Rightarrow>
                                (case receive_loop_frames loads cbs rest
                                        (c\<lparr> receive_queue := receive_queue c @ [message_obj],
                                           called := called c @ [message_obj] \<rparr>) of
                                   (l, r) \<Rightarrow> (ClientReceived (take 100 message) # l, r))))
                | _ \<Rightarrow>
                    ([], Some AttributeError, rest,
                     c\<lparr> receive_queue := receive_queue c @ [message_obj] \<rparr>))))"
  by pat_completeness auto
termination
proof (relation "measure (\<lambda>(loads, cbs, buffer, c). length buffer)", goal_cases)
  case 1
  show ?case by simp
next
  case (2 loads cbs buffer c x2 message rest)
  then have "split_nl buffer = Some (message, rest)" by simp
  then have "length rest < length buffer"
    by (induction buffer arbitrary: message) (auto split: if_splits option.splits)
  then show ?case by simp
next
  case (3 loads cbs buffer c x2 message rest)
  then have "split_nl buffer = Some (message, rest)" by simp
  then have "length rest < length buffer"
    by (induction buffer arbitrary: message) (auto split: if_splits option.splits)
  then show ?case by simp
next
  case (4 loads cbs buffer c x2 message rest)
  then have "split_nl buffer = Some (message, rest)" by simp
  then have "length rest < length buffer"
    by (induction buffer arbitrary: message) (auto split: if_splits option.splits)
  then show ?case by simp
next
  case (5 loads cbs buffer c x2 message rest)
  then have "split_nl buffer = Some (message, rest)" by simp
  then have "length rest < length buffer"
    by (induction buffer arbitrary: message) (auto split: if_splits option.splits)
  then show ?case by simp
qed

declare receive_loop_frames.simps [simp del]

text \<open>
  The handlers of the outer \<open>try\<close> of \<open>_receive_loop\<close>, for an exception \<open>e\<close> raised
  anywhere in its body (by \<open>recv\<close>, by \<open>data.decode()\<close>, or one that left the frame
  loop), after \<open>l\<close> was printed: \<open>except socket.timeout: continue\<close>, then
  \<open>except Exception\<close>, which prints the exception and, when it is a \<open>socket.error\<close>,
  clears \<open>connected\<close> and leaves the loop. The flag tells whether the thread stays in the
  loop.
\<close>

definition receive_loop_except ::
  "error \<Rightarrow> client_log list \<Rightarrow> string \<Rightarrow> net_client \<Rightarrow> bool \<times> client_log list \<times> string \<times> net_client" where
  "receive_loop_except e l buffer c =
     (if e = SocketTimeoutError then (True, l, buffer, c)
      else if e = OSError
        then (False, l @ [ClientErrorReceiving e, ClientConnectionLost], buffer, c\<lparr> connected := False \<rparr>)
      else (True, l @ [ClientErrorReceiving e], buffer, c))"

text \<open>
  One pass of the outer loop of \<open>_receive_loop\<close>: whether the thread stays in the loop,
  what was printed, the buffer and the client. No data ends the loop; an exception goes to
  the handlers above, and when it was raised by \<open>data.decode()\<close> the chunk is not in the
  buffer.
\<close>

definition receive_loop_step ::
  "(byte list \<Rightarrow> string option) \<Rightarrow> (string \<Rightarrow> error + json) \<Rightarrow> callbacks \<Rightarrow> recv \<Rightarrow> string \<Rightarrow> net_client
     \<Rightarrow> bool \<times> client_log list \<times> string \<times> net_client" where
  "receive_loop_step dec loads cbs r buffer c =
     (case r of
        SocketTimeout \<Rightarrow> receive_loop_except SocketTimeoutError [] buffer c
      | SocketError \<Rightarrow> receive_loop_except OSError [] buffer c
      | Data bs \<Rightarrow>
          if bs = [] then (False, [ClientConnectionClosed], buffer, c\<lparr> connected := False \<rparr>)
          else
            (case dec bs of
               None \<Rightarrow> receive_loop_except UnicodeDecodeError [] buffer c
             | Some text \<Rightarrow>
                 (case receive_loop_frames loads cbs (buffer @ text) c of
                    (l, None, b, c') \<Rightarrow> (True, l, b, c')
                  | (l, Some e, b, c') \<Rightarrow> receive_loop_except e l b c')))"

subsection \<open>Vocabulary for statements about runs\<close>

text \<open>
  A \<open>JOIN_LOBBY\<close> message, a \<open>LEAVE_LOBBY\<close> message, a disconnect, a pass of the
  matchmaking loop.
\<close>

fun is_join_lobby :: "event \<Rightarrow> bool" where
  "is_join_lobby (Frame pid now uuid (JDict d)) = (dict_get d ''type'' (JStr []) = JStr ''JOIN_LOBBY'')"
| "is_join_lobby _ = False"

fun is_leave_lobby :: "event \<Rightarrow> bool" where
  "is_leave_lobby (Frame pid now uuid (JDict d)) = (dict_get d ''type'' (JStr []) = JStr ''LEAVE_LOBBY'')"
| "is_leave_lobby _ = False"

fun is_disconnect :: "event \<Rightarrow> bool" where
  "is_disconnect (Disconnect pid now) = True"
| "is_disconnect _ = False"

fun is_match :: "event \<Rightarrow> bool" where
  "is_match (Match bid now) = True"
| "is_match _ = False"

text \<open>The sessions that send \<open>JOIN_LOBBY\<close> in a run, once for each such message, in order.\<close>

fun joiner :: "event \<Rightarrow> string list" where
  "joiner (Frame pid now uuid data) = (if is_join_lobby (Frame pid now uuid data) then [pid] else [])"
| "joiner _ = []"

definition joiners :: "event list \<Rightarrow> string list" where
  "joiners evs = concat (map joiner evs)"

text \<open>The two participants of every battle room, in the order the rooms were created.\<close>

definition paired :: "server \<Rightarrow> (string \<times> string) list" where
  "paired s = map (\<lambda>(bid, bt). (player1 bt, player2 bt)) (battles s)"

definition flat :: "('a \<times> 'a) list \<Rightarrow> 'a list" where
  "flat ps = concat (map (\<lambda>(a, b). [a, b]) ps)"

text \<open>First with second, third with fourth, and so on; an odd last element stays alone.\<close>

fun pair_up :: "'a list \<Rightarrow> ('a \<times> 'a) list" where
  "pair_up (x # y # xs) = (x, y) # pair_up xs"
| "pair_up _ = []"

text \<open>Every event of the list can happen when its turn comes.\<close>

fun enabled_run :: "event list \<Rightarrow> server \<Rightarrow> bool" where
  "enabled_run [] s = True"
| "enabled_run (e # es) s = (enabled e s \<and> enabled_run es (step e s))"

text \<open>
  The \<open>"type"\<close> of a message, the messages of one type handed to one handler's socket, and
  what was sent between two states.
\<close>

definition msg_type :: "json \<Rightarrow> json" where
  "msg_type m = (case m of JDict d \<Rightarrow> dict_get d ''type'' JNull | _ \<Rightarrow> JNull)"

definition envelopes_to :: "string \<Rightarrow> string \<Rightarrow> (string \<times> json) list \<Rightarrow> json list" where
  "envelopes_to q ty box = map snd (filter (\<lambda>(r, m). r = q \<and> msg_type m = JStr ty) box)"

definition sent_during :: "server \<Rightarrow> server \<Rightarrow> (string \<times> json) list" where
  "sent_during s s' = drop (length (outbox s)) (outbox s')"

text \<open>
  The three reasons for which a join is refused: the room id is a key of no party, the party
  has four members, the party is not waiting.
\<close>

definition join_refused :: "server \<Rightarrow> string \<Rightarrow> bool" where
  "join_refused s rid =
     (case map_of (adventure_parties s) rid of
        None \<Rightarrow> True
      | Some p \<Rightarrow> length (members p) \<ge> 4 \<or> state p \<noteq> ''waiting'')"

text \<open>
  A party record is well formed when it has a member, as many creatures and usernames as
  members, and its members are registered handlers. \<open>create_adventure_party\<close> builds
  such a record, and \<open>join_adventure_party\<close> and \<open>remove_from_adventure\<close> change the
  three lists together, with no send in between.
\<close>

definition party_wf :: "string set \<Rightarrow> party \<Rightarrow> bool" where
  "party_wf cs p =
     (members p \<noteq> []
      \<and> length (creatures p) = length (members p)
      \<and> length (usernames p) = length (members p)
      \<and> set (members p) \<subseteq> cs)"

definition parties_wf :: "server \<Rightarrow> bool" where
  "parties_wf s = list_all (\<lambda>(aid, p). party_wf (clients s) p) (adventure_parties s)"

text \<open>
  What holds of every party in every state of a serial execution: it is well formed and has
  one or two members, one while it waits.
\<close>

definition party_ok :: "string set \<Rightarrow> party \<Rightarrow> bool" where
  "party_ok cs p =
     (members p \<noteq> [] \<and> length (members p) \<le> 2
      \<and> (state p = ''waiting'' \<longrightarrow> length (members p) = 1)
      \<and> length (creatures p) = length (members p)
      \<and> length (usernames p) = length (members p)
      \<and> set (members p) \<subseteq> cs)"

definition parties_ok :: "server \<Rightarrow> bool" where
  "parties_ok s = (\<forall>(aid, p) \<in> set (adventure_parties s). party_ok (clients s) p)"

text \<open>
  The record of a party after \<open>join_adventure_party\<close> has let a handler in, and after
  \<open>remove_from_adventure\<close> has taken a member out while others remain.
\<close>

definition joined :: "party \<Rightarrow> string \<Rightarrow> client \<Rightarrow> rat \<Rightarrow> party" where
  "joined p pid c now =
     (let p1 = p\<lparr> members := members p @ [pid], creatures := creatures p @ [creature c],
                   usernames := usernames p @ [username c], party_last_activity := now \<rparr>
      in if length (members p1) \<ge> 2 then p1\<lparr> state := ''active'' \<rparr> else p1)"

definition departed :: "party \<Rightarrow> string \<Rightarrow> rat \<Rightarrow> party" where
  "departed p pid now =
     (let i = index_of pid (members p);
          ms = take i (members p) @ drop (Suc i) (members p)
      in p\<lparr> members := ms,
             creatures := take i (creatures p) @ drop (Suc i) (creatures p),
             usernames := take i (usernames p) @ drop (Suc i) (usernames p),
             party_last_activity := now,
             host := (if pid = host p then ms ! 0 else host p) \<rparr>)"

text \<open>The entries of the waiting parties, in the order of the dict.\<close>

definition waiting_listing :: "(string \<times> party) list \<Rightarrow> json list" where
  "waiting_listing al =
     map (\<lambda>(aid, p). party_entry aid p (usernames p ! 0))
       (filter (\<lambda>(aid, p). state p = ''waiting'') al)"

text \<open>
  An \<open>ADVENTURE_START\<close> for party \<open>aid\<close>; and: between two states, messages were only added
  to the outbox, none of which satisfies \<open>Q\<close>.
\<close>

definition is_start_for :: "string \<Rightarrow> json \<Rightarrow> bool" where
  "is_start_for aid m =
     (case m of
        JDict d \<Rightarrow> dict_get d ''type'' JNull = JStr ''ADVENTURE_START''
                  \<and> dict_get d ''adventure_id'' JNull = JStr aid
      | _ \<Rightarrow> False)"

definition adds_no :: "(json \<Rightarrow> bool) \<Rightarrow> server \<Rightarrow> server \<Rightarrow> bool" where
  "adds_no Q s s' = (\<exists>X. outbox s' = outbox s @ X \<and> (\<forall>(r, m) \<in> set X. \<not> Q m))"

text \<open>
  The rooms a session is in: the times it stands in the lobby queue, the battle rooms it is
  a participant of, the parties it is a member of.
\<close>

definition battle_count :: "server \<Rightarrow> string \<Rightarrow> nat" where
  "battle_count s pid =
     length (filter (\<lambda>(bid, bt). player1 bt = pid \<or> player2 bt = pid) (battles s))"

definition party_count :: "server \<Rightarrow> string \<Rightarrow> nat" where
  "party_count s pid =
     length (filter (\<lambda>(aid, p). pid \<in> set (members p)) (adventure_parties s))"

definition memberships :: "server \<Rightarrow> string \<Rightarrow> nat" where
  "memberships s pid = count_list (lobby s) pid + battle_count s pid + party_count s pid"

text \<open>
  The session that asks for a room with this event, if any; and a run in which every event
  can happen and a session asks for a room only while it is in none.
\<close>

fun asks_room :: "event \<Rightarrow> string option" where
  "asks_room (Frame pid now uuid (JDict d)) =
     (if dict_get d ''type'' (JStr []) = JStr ''JOIN_LOBBY''
         \<or> dict_get d ''type'' (JStr []) = JStr ''CREATE_ADVENTURE''
         \<or> dict_get d ''type'' (JStr []) = JStr ''JOIN_ADVENTURE''
      then Some pid else None)"
| "asks_room _ = None"

definition asks_when_free :: "event \<Rightarrow> server \<Rightarrow> bool" where
  "asks_when_free e s = (case asks_room e of None \<Rightarrow> True | Some pid \<Rightarrow> memberships s pid = 0)"

fun orderly_run :: "event list \<Rightarrow> server \<Rightarrow> bool" where
  "orderly_run [] s = True"
| "orderly_run (e # es) s = (enabled e s \<and> asks_when_free e s \<and> orderly_run es (step e s))"

subsection \<open>Example runs\<close>

definition join_lobby_msg :: json where
  "join_lobby_msg = JDict [(''type'', JStr ''JOIN_LOBBY'')]"

definition battle_action_msg :: json where
  "battle_action_msg = JDict [(''type'', JStr ''BATTLE_ACTION''), (''ability_index'', JInt 2)]"

text \<open>Three sessions connect and join the lobby, with a matchmaking pass after the second.\<close>

definition three_join_events :: "event list" where
  "three_join_events =
     [Accept ''a'', Accept ''b'', Accept ''c'',
      Frame ''a'' 1 [] join_lobby_msg, Frame ''b'' 2 [] join_lobby_msg,
      Match ''m1'' 3,
      Frame ''c'' 4 [] join_lobby_msg]"

text \<open>Two sessions connect, join the lobby and are paired in battle \<open>b\<close>; it is \<open>p\<close>'s turn.\<close>

definition two_in_battle :: server where
  "two_in_battle =
     run_events [Accept ''p'', Accept ''q'',
          Frame ''p'' 1 [] join_lobby_msg, Frame ''q'' 2 [] join_lobby_msg,
          Match ''b'' 3] init_server"

text \<open>
  As \<open>two_in_battle\<close>, with a third session \<open>r\<close>; then \<open>q\<close>, still in battle \<open>b\<close>, joins
  the lobby again, \<open>r\<close> joins too, and the matchmaker pairs \<open>q\<close> and \<open>r\<close> in battle \<open>b2\<close>.
\<close>

definition rematch_events :: "event list" where
  "rematch_events =
     [Accept ''p'', Accept ''q'', Accept ''r'',
      Frame ''p'' 1 [] join_lobby_msg, Frame ''q'' 2 [] join_lobby_msg,
      Match ''b'' 3,
      Frame ''q'' 4 [] join_lobby_msg, Frame ''r'' 5 [] join_lobby_msg,
      Match ''b2'' 6]"

definition q_rematched :: server where
  "q_rematched = run_events rematch_events init_server"


definition create_adventure_msg :: json where
  "create_adventure_msg = JDict [(''type'', JStr ''CREATE_ADVENTURE''), (''creature'', JStr ''Skeleton'')]"

definition join_adventure_msg :: "string \<Rightarrow> json" where
  "join_adventure_msg rid =
     JDict [(''type'', JStr ''JOIN_ADVENTURE''), (''party_id'', JStr rid), (''creature'', JStr ''Knight'')]"

text \<open>Session \<open>h\<close> creates party \<open>a\<close>; then session \<open>j\<close> joins it; \<open>k\<close> is connected too.\<close>

definition party_events :: "event list" where
  "party_events =
     [Accept ''h'', Accept ''j'', Accept ''k'', Frame ''h'' 1 ''a'' create_adventure_msg]"

definition party_waiting :: server where
  "party_waiting = run_events party_events init_server"

definition party_active :: server where
  "party_active = step (Frame ''j'' 2 [] (join_adventure_msg ''a'')) party_waiting"

text \<open>
  Two joins of party \<open>a\<close> that interleave: the thread of \<open>j\<close> passes the tests, appends
  \<open>j\<close> and blocks in its sends; the thread of \<open>k\<close> finds the party still waiting with two
  members, appends \<open>k\<close> and blocks; then each thread goes on with the second part.
\<close>

definition interleaved_joins :: server where
  "interleaved_joins =
     (let s1 = snd (join_adventure_party_begin (JStr ''a'') ''j'' 2 party_waiting);
          s2 = snd (join_adventure_party_begin (JStr ''a'') ''k'' 3 s1);
          s3 = join_adventure_party_finish ''a'' 4 s2
      in join_adventure_party_finish ''a'' 5 s3)"

text \<open>A state with a waiting party of four members; no serial execution leads to it.\<close>

definition party_full :: server where
  "party_full =
     init_server
       \<lparr> clients := {''h'', ''j'', ''k'', ''l'', ''m''},
         adventure_parties :=
           [(''a'', \<lparr> party_ident = ''a'', host = ''h'', members = [''h'', ''j'', ''l'', ''m''],
                     creatures = [JNull, JNull, JNull, JNull],
                     usernames = [JStr ''h'', JStr ''j'', JStr ''l'', JStr ''m''],
                     state = ''waiting'', creation_time = 1, party_last_activity = 1 \<rparr>)] \<rparr>"

subsection \<open>Codecs for the examples\<close>

text \<open>
  UTF-8 for the characters a \<open>char\<close> can hold, the code points below 256: one byte below
  128, two bytes with lead \<open>0xC2\<close> or \<open>0xC3\<close> from 128 on. The decoder rejects every other
  byte sequence; those that are not UTF-8 at all, such as any with the byte \<open>0xFF\<close>,
  Python's decoder rejects too.
\<close>

fun utf8_encode :: "string \<Rightarrow> byte list" where
  "utf8_encode [] = []"
| "utf8_encode (c # cs) =
     (if (of_char c :: nat) < 128 then [of_nat (of_char c)]
      else if (of_char c :: nat) < 192 then [0xC2, of_nat (of_char c)]
      else [0xC3, of_nat (of_char c - 64)])
     @ utf8_encode cs"

fun utf8_decode :: "byte list \<Rightarrow> string option" where
  "utf8_decode [] = Some []"
| "utf8_decode [b] = (if b < 0x80 then Some [char_of (unat b)] else None)"
| "utf8_decode (b # b' # bs) =
     (if b < 0x80 then map_option ((#) (char_of (unat b))) (utf8_decode (b' # bs))
      else if b = 0xC2 \<and> 0x80 \<le> b' \<and> b' < 0xC0
        then map_option ((#) (char_of (unat b'))) (utf8_decode bs)
      else if b = 0xC3 \<and> 0x80 \<le> b' \<and> b' < 0xC0
        then map_option ((#) (char_of (unat b' + 64))) (utf8_decode bs)
      else None)"

text \<open>
  What \<open>json.dumps\<close> gives for the dict \<open>{"type": t}\<close> when \<open>t\<close> needs no escapes, and
  a reader that agrees with \<open>json.loads\<close> on these texts and on every text that is no
  JSON: \<open>NaN\<close> is read as a float, a thousand or more opening brackets and nothing else
  exceed the recursion limit (\<open>RecursionError\<close>), every other such text raises
  \<open>JSONDecodeError\<close>.
\<close>

definition envelope_text :: "string \<Rightarrow> string" where
  "envelope_text t = ''{'' @ [CHR 0x22] @ ''type'' @ [CHR 0x22] @ '': '' @ [CHR 0x22] @ t @ [CHR 0x22] @ ''}''"

definition plain :: "string \<Rightarrow> bool" where
  "plain t = list_all (\<lambda>c. c \<noteq> CHR 0x22 \<and> c \<noteq> CHR 0x5C \<and> 32 \<le> (of_char c :: nat) \<and> (of_char c :: nat) < 127) t"

definition type_dumps :: "json \<Rightarrow> string" where
  "type_dumps j =
     (case j of
        JDict [(k, JStr t)] \<Rightarrow> if k = ''type'' \<and> plain t then envelope_text t else ''null''
      | _ \<Rightarrow> ''null'')"

definition type_loads :: "string \<Rightarrow> error + json" where
  "type_loads s =
     (let t = take (length s - 12) (drop 10 s)
      in if 12 \<le> length s \<and> s = envelope_text t \<and> plain t
           then Inr (JDict [(''type'', JStr t)])
         else if s = ''NaN'' then Inr JNaN
         else if 1000 \<le> length s \<and> list_all (\<lambda>c. c = CHR ''['') s then Inl RecursionError
         else Inl JSONDecodeError)"

text \<open>The message \<open>{"type": "LEAVE_LOBBY"}\<close> and the frame that carries it.\<close>

definition leave_lobby_dict :: pydict where
  "leave_lobby_dict = [(''type'', JStr ''LEAVE_LOBBY'')]"

definition leave_lobby_frame :: string where
  "leave_lobby_frame = envelope_text ''LEAVE_LOBBY'' @ [CHR 0x0A]"

definition idle_client :: net_client where
  "idle_client = \<lparr> connected = True, nc_running = True, send_queue = [], receive_queue = [], called = [] \<rparr>"

text \<open>
  Sessions \<open>p\<close> and \<open>q\<close> are in battle \<open>b\<close>; then \<open>q\<close> sends \<open>JOIN_LOBBY\<close> and
  \<open>CREATE_ADVENTURE\<close>.
\<close>

definition greedy_events :: "event list" where
  "greedy_events =
     [Accept ''p'', Accept ''q'',
      Frame ''p'' 1 [] join_lobby_msg, Frame ''q'' 2 [] join_lobby_msg,
      Match ''b'' 3,
      Frame ''q'' 4 [] join_lobby_msg,
      Frame ''q'' 5 ''a'' create_adventure_msg]"

definition q_everywhere :: server where
  "q_everywhere = run_events greedy_events init_server"

text \<open>
  Sessions \<open>p\<close> and \<open>q\<close> are paired in battle \<open>b\<close>; \<open>p\<close> disconnects, which ends the
  battle; then \<open>q\<close>, in no room, creates party \<open>a\<close>.
\<close>

definition orderly_events :: "event list" where
  "orderly_events =
     [Accept ''p'', Accept ''q'',
      Frame ''p'' 1 [] join_lobby_msg, Frame ''q'' 2 [] join_lobby_msg,
      Match ''b'' 3,
      Disconnect ''p'' 4,
      Frame ''q'' 5 ''a'' create_adventure_msg]"

section \<open>Properties\<close>

subsection \<open>Sending and the lobby\<close>

lemma fold_send: "fold (\<lambda>c. send c m) xs s = s\<lparr> outbox := outbox s @ map (\<lambda>c. (c, m)) xs \<rparr>"
  by (induction xs arbitrary: s) (simp_all add: send_def)

lemma broadcast_lobby_status_eq:
  "broadcast_lobby_status now s =
     s\<lparr> outbox := outbox s @ map (\<lambda>c. (c, lobby_status now s)) (lobby s) \<rparr>"
  by (simp add: broadcast_lobby_status_def fold_send)

lemma add_to_lobby_eq:
  "add_to_lobby pid now s =
     (if pid \<in> set (lobby s) then s
      else s\<lparr> lobby := lobby s @ [pid],
              outbox := outbox s @ map (\<lambda>c. (c, lobby_status now (s\<lparr> lobby := lobby s @ [pid] \<rparr>)))
                                      (lobby s @ [pid]) \<rparr>)"
  by (simp add: add_to_lobby_def broadcast_lobby_status_eq)

lemma remove_from_lobby_eq:
  "remove_from_lobby pid now s =
     (if pid \<in> set (lobby s)
      then s\<lparr> lobby := remove1 pid (lobby s),
              outbox := outbox s @ map (\<lambda>c. (c, lobby_status now (s\<lparr> lobby := remove1 pid (lobby s) \<rparr>)))
                                      (remove1 pid (lobby s)) \<rparr>
      else s)"
  by (simp add: remove_from_lobby_def broadcast_lobby_status_eq)

lemma send_members_eq:
  "send_members ms m s = s\<lparr> outbox := outbox s @ map (\<lambda>c. (c, m)) (filter (\<lambda>c. c \<in> clients s) ms) \<rparr>"
  unfolding send_members_def
  by (induction ms arbitrary: s) (simp_all add: send_def)

lemma update_fresh: "k \<notin> fst ` set al \<Longrightarrow> AList.update k v al = al @ [(k, v)]"
  by (induction al) auto

lemma match_players_lobby:
  "lobby s = a # b # rest \<Longrightarrow> lobby (match_players bid now s) = rest"
  by (simp add: match_players_def Let_def remove_from_lobby_eq upd_handler_def send_def)

lemma match_players_battles:
  "lobby s = a # b # rest \<Longrightarrow>
   battles (match_players bid now s) =
     AList.update bid
       \<lparr> battle_ident = bid, player1 = a, player2 = b,
         creature1 = creature (handlers s a), creature2 = creature (handlers s b),
         current_turn = ''player1'', start_time = now, battle_last_activity = now \<rparr>
       (battles s)"
  by (simp add: match_players_def Let_def remove_from_lobby_eq upd_handler_def send_def)

lemma handle_join_lobby_lobby:
  "lobby (handle_join_lobby pid d now s) = (if pid \<in> set (lobby s) then lobby s else lobby s @ [pid])"
  by (simp add: handle_join_lobby_def Let_def add_to_lobby_eq upd_handler_def send_def split: option.splits)

lemma handle_join_lobby_battles:
  "battles (handle_join_lobby pid d now s) = battles s"
  by (simp add: handle_join_lobby_def Let_def add_to_lobby_eq upd_handler_def send_def split: option.splits)


lemma step_join_lobby:
  assumes "is_join_lobby e"
  obtains pid now uuid d where "e = Frame pid now uuid (JDict d)"
    "step e s = handle_join_lobby pid d now s"
  using assms
  by (cases e rule: is_join_lobby.cases) (auto simp: dispatch_def Let_def)

lemma run_events_append: "run_events (xs @ ys) s = run_events ys (run_events xs s)"
  by (simp add: run_events_def)

lemma run_events_Cons: "run_events (e # es) s = run_events es (step e s)"
  by (simp add: run_events_def)

lemma run_events_Nil: "run_events [] s = s"
  by (simp add: run_events_def)

lemma paired_match:
  assumes "lobby s = a # b # rest" "bid \<notin> fst ` set (battles s)"
  shows "paired (match_players bid now s) = paired s @ [(a, b)]"
  using assms by (simp add: paired_def match_players_battles update_fresh)

lemma keys_match:
  "fst ` set (battles (match_players bid now s)) \<subseteq> insert bid (fst ` set (battles s))"
proof (cases "length (lobby s) < 2")
  case True thus ?thesis by (auto simp: match_players_def)
next
  case False
  then obtain a b rest where "lobby s = a # b # rest"
    by (cases "lobby s"; cases "tl (lobby s)") auto
  thus ?thesis by (simp add: match_players_battles AList.dom_update)
qed

lemma flat_pair_up:
  "flat ps @ l = J \<Longrightarrow> length l < 2 \<Longrightarrow> ps = pair_up J \<and> l = drop (2 * (length J div 2)) J"
proof (induction ps arbitrary: J)
  case Nil
  then show ?case by (cases l; cases "tl l") (auto simp: flat_def)
next
  case (Cons p ps)
  obtain a b where p: "p = (a, b)" by (cases p)
  from Cons.prems(1) have J: "J = a # b # (flat ps @ l)" by (simp add: p flat_def)
  from Cons.IH[OF refl Cons.prems(2)] show ?case by (simp add: J p)
qed

lemma ticks_drain:
  assumes "\<forall>e\<in>set ticks. is_match e"
  shows "length (lobby (run_events ticks s)) = length (lobby s) - 2 * min (length ticks) (length (lobby s) div 2)"
  using assms
proof (induction ticks arbitrary: s)
  case Nil
  then show ?case by (simp add: run_events_Nil)
next
  case (Cons e ticks)
  then obtain bid now where ev: "e = Match bid now" by (cases e) auto
  have IH: "length (lobby (run_events ticks (step e s))) =
      length (lobby (step e s)) - 2 * min (length ticks) (length (lobby (step e s)) div 2)"
    using Cons.prems by (intro Cons.IH) simp
  show ?case
  proof (cases "length (lobby s) < 2")
    case True
    then have "step e s = s" by (simp add: ev match_players_def)
    with IH True show ?thesis by (simp add: run_events_Cons)
  next
    case False
    then obtain a b rest where lb: "lobby s = a # b # rest"
      by (cases "lobby s"; cases "tl (lobby s)") auto
    have "lobby (step e s) = rest" by (simp add: ev match_players_lobby[OF lb])
    with IH show ?thesis by (simp add: run_events_Cons lb)
  qed
qed

lemma length_pair_up: "length (pair_up xs) = length xs div 2"
  by (induction xs rule: pair_up.induct) simp_all

lemma init_fields [simp]:
  "lobby init_server = []" "battles init_server = []" "paired init_server = []"
  "adventure_parties init_server = []" "outbox init_server = []" "clients init_server = {}"
  by (simp_all add: init_server_def paired_def)

subsection \<open>The fields an operation leaves alone\<close>

lemma send_fields [simp]:
  "handlers (send p m s) = handlers s" "clients (send p m s) = clients s"
  "lobby (send p m s) = lobby s" "battles (send p m s) = battles s"
  "adventure_parties (send p m s) = adventure_parties s"
  "outbox (send p m s) = outbox s @ [(p, m)]"
  by (simp_all add: send_def)

lemma upd_handler_fields [simp]:
  "handlers (upd_handler p f s) = (handlers s)(p := f (handlers s p))"
  "clients (upd_handler p f s) = clients s"
  "lobby (upd_handler p f s) = lobby s" "battles (upd_handler p f s) = battles s"
  "adventure_parties (upd_handler p f s) = adventure_parties s"
  "outbox (upd_handler p f s) = outbox s"
  by (simp_all add: upd_handler_def)

lemma accept_connection_fields [simp]:
  "handlers (accept_connection p s) = (handlers s)(p := new_handler p)"
  "clients (accept_connection p s) = insert p (clients s)"
  "lobby (accept_connection p s) = lobby s" "battles (accept_connection p s) = battles s"
  "adventure_parties (accept_connection p s) = adventure_parties s"
  "outbox (accept_connection p s) = outbox s"
  by (simp_all add: accept_connection_def)

lemma broadcast_lobby_status_fields [simp]:
  "handlers (broadcast_lobby_status now s) = handlers s"
  "clients (broadcast_lobby_status now s) = clients s"
  "lobby (broadcast_lobby_status now s) = lobby s"
  "battles (broadcast_lobby_status now s) = battles s"
  "adventure_parties (broadcast_lobby_status now s) = adventure_parties s"
  "outbox (broadcast_lobby_status now s) = outbox s @ map (\<lambda>c. (c, lobby_status now s)) (lobby s)"
  by (simp_all add: broadcast_lobby_status_eq)

lemma add_to_lobby_fields [simp]:
  "handlers (add_to_lobby p now s) = handlers s"
  "clients (add_to_lobby p now s) = clients s"
  "battles (add_to_lobby p now s) = battles s"
  "adventure_parties (add_to_lobby p now s) = adventure_parties s"
  "lobby (add_to_lobby p now s) = (if p \<in> set (lobby s) then lobby s else lobby s @ [p])"
  by (simp_all add: add_to_lobby_def)

lemma remove_from_lobby_fields [simp]:
  "handlers (remove_from_lobby p now s) = handlers s"
  "clients (remove_from_lobby p now s) = clients s"
  "battles (remove_from_lobby p now s) = battles s"
  "adventure_parties (remove_from_lobby p now s) = adventure_parties s"
  "lobby (remove_from_lobby p now s) = remove1 p (lobby s)"
  by (simp_all add: remove_from_lobby_def remove1_idem)

lemma send_members_fields [simp]:
  "handlers (send_members ms m s) = handlers s"
  "clients (send_members ms m s) = clients s"
  "lobby (send_members ms m s) = lobby s"
  "battles (send_members ms m s) = battles s"
  "adventure_parties (send_members ms m s) = adventure_parties s"
  "outbox (send_members ms m s) = outbox s @ map (\<lambda>c. (c, m)) (filter (\<lambda>c. c \<in> clients s) ms)"
  by (simp_all add: send_members_eq)

lemma broadcast_adventure_update_fields [simp]:
  "handlers (broadcast_adventure_update a now s) = handlers s"
  "clients (broadcast_adventure_update a now s) = clients s"
  "lobby (broadcast_adventure_update a now s) = lobby s"
  "battles (broadcast_adventure_update a now s) = battles s"
  "adventure_parties (broadcast_adventure_update a now s) = adventure_parties s"
  by (simp_all add: broadcast_adventure_update_def split: option.splits)

lemma broadcast_adventure_start_fields [simp]:
  "handlers (broadcast_adventure_start a now s) = handlers s"
  "clients (broadcast_adventure_start a now s) = clients s"
  "lobby (broadcast_adventure_start a now s) = lobby s"
  "battles (broadcast_adventure_start a now s) = battles s"
  "adventure_parties (broadcast_adventure_start a now s) = adventure_parties s"
  by (simp_all add: broadcast_adventure_start_def split: option.splits)

lemma notify_battle_end_fields [simp]:
  "clients (notify_battle_end b w pl p s) = clients s"
  "lobby (notify_battle_end b w pl p s) = lobby s"
  "battles (notify_battle_end b w pl p s) = battles s"
  "adventure_parties (notify_battle_end b w pl p s) = adventure_parties s"
  by (simp_all add: notify_battle_end_def)

lemma end_battle_fields [simp]:
  "clients (end_battle k pl s) = clients s"
  "lobby (end_battle k pl s) = lobby s"
  "adventure_parties (end_battle k pl s) = adventure_parties s"
  by (simp_all add: end_battle_def Let_def split: option.splits)

lemma end_battle_battles:
  "battles (end_battle k pl s) = (case k of None \<Rightarrow> battles s | Some b \<Rightarrow> AList.delete b (battles s))"
  by (auto simp: end_battle_def Let_def map_of_eq_None_iff split: option.splits)

lemma match_players_fields [simp]:
  "clients (match_players b now s) = clients s"
  "adventure_parties (match_players b now s) = adventure_parties s"
  by (simp_all add: match_players_def Let_def)

lemma process_battle_action_fields [simp]:
  "clients (process_battle_action k p a now s) = clients s"
  "lobby (process_battle_action k p a now s) = lobby s"
  "adventure_parties (process_battle_action k p a now s) = adventure_parties s"
  by (simp_all add: process_battle_action_def Let_def split: option.splits)

lemma create_adventure_party_fields [simp]:
  "handlers (create_adventure_party a p now s) = handlers s"
  "clients (create_adventure_party a p now s) = clients s"
  "lobby (create_adventure_party a p now s) = lobby s"
  "battles (create_adventure_party a p now s) = battles s"
  "outbox (create_adventure_party a p now s) = outbox s"
  by (simp_all add: create_adventure_party_def)

lemma join_adventure_party_fields [simp]:
  "handlers (snd (join_adventure_party k p now s)) = handlers s"
  "clients (snd (join_adventure_party k p now s)) = clients s"
  "lobby (snd (join_adventure_party k p now s)) = lobby s"
  "battles (snd (join_adventure_party k p now s)) = battles s"
  by (simp_all add: join_adventure_party_def Let_def split: option.splits json.splits)

lemma remove_from_adventure_fields [simp]:
  "handlers (snd (remove_from_adventure k p now s)) = handlers s"
  "clients (snd (remove_from_adventure k p now s)) = clients s"
  "lobby (snd (remove_from_adventure k p now s)) = lobby s"
  "battles (snd (remove_from_adventure k p now s)) = battles s"
  by (simp_all add: remove_from_adventure_def Let_def split: option.splits sum.splits)

lemma fold_cond_send_fields:
  "handlers (fold (\<lambda>m s'. if P m s' then send m msg s' else s') ms s) = handlers s"
  "clients (fold (\<lambda>m s'. if P m s' then send m msg s' else s') ms s) = clients s"
  "lobby (fold (\<lambda>m s'. if P m s' then send m msg s' else s') ms s) = lobby s"
  "battles (fold (\<lambda>m s'. if P m s' then send m msg s' else s') ms s) = battles s"
  "adventure_parties (fold (\<lambda>m s'. if P m s' then send m msg s' else s') ms s) = adventure_parties s"
  by (induction ms arbitrary: s) simp_all

lemma process_adventure_update_fields [simp]:
  "handlers (process_adventure_update k p d now s) = handlers s"
  "clients (process_adventure_update k p d now s) = clients s"
  "lobby (process_adventure_update k p d now s) = lobby s"
  "battles (process_adventure_update k p d now s) = battles s"
  by (simp_all add: process_adventure_update_def Let_def fold_cond_send_fields split: option.splits)

subsection \<open>Example states\<close>

lemma serial_run_enabled: "serial s \<Longrightarrow> enabled_run evs s \<Longrightarrow> serial (run_events evs s)"
  by (induction evs arbitrary: s) (auto simp: run_events_def intro: serial_step)

lemma two_in_battle_serial: "serial two_in_battle"
  unfolding two_in_battle_def
  by (rule serial_run_enabled[OF serial_init]) code_simp

lemma two_in_battle_b:
  "map_of (battles two_in_battle) ''b'' =
     Some \<lparr> battle_ident = ''b'', player1 = ''p'', player2 = ''q'',
            creature1 = JDict [], creature2 = JDict [], current_turn = ''player1'',
            start_time = 3, battle_last_activity = 3 \<rparr>"
  by code_simp

lemma two_in_battle_zz: "map_of (battles two_in_battle) ''zz'' = None"
  by code_simp

subsection \<open>A battle action out of turn, or for a room that is gone\<close>

text \<open>
  Claim C3, as the code has it. \<open>process_battle_action\<close> returns the state as it is when
  the room id is \<open>None\<close> or the key of no room. When the room exists and it is not the
  turn of the sender's side, nothing is sent, no handler and no other room changes, and
  the room keeps every field but \<open>last_activity\<close>, which is set to the clock's reading
  before the turn is checked.
\<close>

theorem battle_action_out_of_turn:
  "process_battle_action None pid a now s = s
   \<and> (map_of (battles s) bid = None \<longrightarrow> process_battle_action (Some bid) pid a now s = s)
   \<and> (\<forall>bt. map_of (battles s) bid = Some bt
          \<and> current_turn bt \<noteq> (if pid = player1 bt then ''player1'' else ''player2'')
        \<longrightarrow> process_battle_action (Some bid) pid a now s
            = s\<lparr> battles := AList.update bid (bt\<lparr> battle_last_activity := now \<rparr>) (battles s) \<rparr>)"
  by (simp add: process_battle_action_def Let_def)

theorem battle_action_out_of_turn_witness:
  "process_battle_action (Some ''zz'') ''q'' (JInt 2) 7 two_in_battle = two_in_battle
   \<and> outbox (process_battle_action (Some ''b'') ''q'' (JInt 2) 7 two_in_battle) = outbox two_in_battle
   \<and> map_of (battles (process_battle_action (Some ''b'') ''q'' (JInt 2) 7 two_in_battle)) ''b''
      = Some \<lparr> battle_ident = ''b'', player1 = ''p'', player2 = ''q'',
            creature1 = JDict [], creature2 = JDict [], current_turn = ''player1'',
            start_time = 3, battle_last_activity = 7 \<rparr>"
  using battle_action_out_of_turn[of "''q''" "JInt 2" 7 two_in_battle "''zz''"]
    battle_action_out_of_turn[of "''q''" "JInt 2" 7 two_in_battle "''b''"]
    two_in_battle_b two_in_battle_zz
  by (simp add: AList.update_conv')

text \<open>
  The claim as stated fails: in battle \<open>b\<close> it is the turn of \<open>p\<close> (side \<open>player1\<close>);
  a \<open>BATTLE_ACTION\<close> of \<open>q\<close> (side \<open>player2\<close>) at time 7 changes the room's
  \<open>last_activity\<close> from 3 to 7.
\<close>

theorem battle_action_out_of_turn_counterexample:
  "map_option current_turn (map_of (battles two_in_battle) ''b'') = Some ''player1''
   \<and> map_option player2 (map_of (battles two_in_battle) ''b'') = Some ''q''
   \<and> in_battle (handlers two_in_battle ''q'')
   \<and> battle_id (handlers two_in_battle ''q'') = Some ''b''
   \<and> map_option battle_last_activity (map_of (battles two_in_battle) ''b'') = Some 3
   \<and> map_option battle_last_activity
        (map_of (battles (step (Frame ''q'' 7 [] battle_action_msg) two_in_battle)) ''b'') = Some 7"
  by code_simp

subsection \<open>Disconnecting from a battle\<close>

lemma envelopes_to_append [simp]:
  "envelopes_to q ty (xs @ ys) = envelopes_to q ty xs @ envelopes_to q ty ys"
  by (simp add: envelopes_to_def)

lemma envelopes_to_Nil [simp]: "envelopes_to q ty [] = []"
  by (simp add: envelopes_to_def)

lemma envelopes_to_Cons:
  "envelopes_to q ty ((r, m) # xs) =
     (if r = q \<and> msg_type m = JStr ty then m # envelopes_to q ty xs else envelopes_to q ty xs)"
  by (simp add: envelopes_to_def)


lemma msg_types [simp]:
  "msg_type (lobby_status now s) = JStr ''LOBBY_STATUS''"
  "msg_type (battle_start bid role c1 c2) = JStr ''BATTLE_START''"
  "msg_type (battle_end bid w pl) = JStr ''BATTLE_END''"
  "msg_type (battle_action bid a r) = JStr ''BATTLE_ACTION''"
  "msg_type (party_update aid p now) = JStr ''ADVENTURE_PARTY_UPDATE''"
  "msg_type (party_start aid p now) = JStr ''ADVENTURE_START''"
  "msg_type (adventure_update aid pid d now) = JStr ''ADVENTURE_UPDATE''"
  "msg_type (join_failed k) = JStr ''ADVENTURE_JOIN_FAILED''"
  by (simp_all add: msg_type_def dict_get_def lobby_status_def battle_start_def battle_end_def
      battle_action_def party_update_def party_start_def adventure_update_def join_failed_def)











lemma q_rematched_serial: "serial q_rematched"
  unfolding q_rematched_def
  by (rule serial_run_enabled[OF serial_init]) (simp add: rematch_events_def, code_simp)



subsection \<open>Joining an adventure party\<close>

lemma broadcast_adventure_update_eq:
  "map_of (adventure_parties s) a = Some p \<Longrightarrow>
   broadcast_adventure_update a now s = send_members (members p) (party_update a p now) s"
  by (simp add: broadcast_adventure_update_def)

lemma broadcast_adventure_start_eq:
  "map_of (adventure_parties s) a = Some p \<Longrightarrow>
   broadcast_adventure_start a now s = send_members (members p) (party_start a p now) s"
  by (simp add: broadcast_adventure_start_def)

lemma join_adventure_party_refused:
  "join_refused s rid \<Longrightarrow> join_adventure_party (JStr rid) pid now s = (Inr False, s)"
  by (auto simp: join_refused_def join_adventure_party_def split: option.splits)

lemma join_adventure_party_accepted:
  assumes "\<not> join_refused s rid"
  shows "\<exists>p s' p'. map_of (adventure_parties s) rid = Some p
     \<and> join_adventure_party (JStr rid) pid now s = (Inr True, s')
     \<and> map_of (adventure_parties s') rid = Some p'
     \<and> members p' = members p @ [pid]
     \<and> creatures p' = creatures p @ [creature (handlers s pid)]
     \<and> usernames p' = usernames p @ [username (handlers s pid)]"
proof -
  from assms obtain p where p: "map_of (adventure_parties s) rid = Some p"
    "\<not> length (members p) \<ge> 4" "state p = ''waiting''"
    by (auto simp: join_refused_def split: option.splits)
  then show ?thesis
    by (auto simp: join_adventure_party_def Let_def AList.update_conv')
qed

text \<open>
  Claim C6, as the code has it. A join with room id \<open>rid\<close> is refused exactly when \<open>rid\<close> is
  the key of no party, or the party has four members, or it is not waiting. A refused join
  returns \<open>False\<close> and the state as it was (so the party's members, creatures, usernames and
  state are unchanged), and \<open>handle_join_adventure\<close> then hands the joining session one
  \<open>ADVENTURE_JOIN_FAILED\<close>, whose content depends on the room id only: neither the result nor
  the message tells the three reasons apart. In every other case the join returns \<open>True\<close>
  and has appended the member, its creature and its username.
\<close>

theorem join_party_outcome:
  "(join_refused s rid \<longrightarrow>
      join_adventure_party (JStr rid) pid now s = (Inr False, s)
      \<and> (dict_get d ''party_id'' (JStr []) = JStr rid \<longrightarrow>
           handle_join_adventure pid d now s =
             (None, send pid (join_failed (JStr rid))
                      (upd_handler pid (\<lambda>c. c\<lparr> creature := dict_get d ''creature'' (JDict []) \<rparr>) s))))
   \<and> (\<not> join_refused s rid \<longrightarrow>
      (\<exists>p s' p'. map_of (adventure_parties s) rid = Some p
         \<and> join_adventure_party (JStr rid) pid now s = (Inr True, s')
         \<and> map_of (adventure_parties s') rid = Some p'
         \<and> members p' = members p @ [pid]
         \<and> creatures p' = creatures p @ [creature (handlers s pid)]
         \<and> usernames p' = usernames p @ [username (handlers s pid)]))"
proof (intro conjI impI)
  assume r: "join_refused s rid"
  then show "join_adventure_party (JStr rid) pid now s = (Inr False, s)"
    by (rule join_adventure_party_refused)
  assume k: "dict_get d ''party_id'' (JStr []) = JStr rid"
  let ?s1 = "upd_handler pid (\<lambda>c. c\<lparr> creature := dict_get d ''creature'' (JDict []) \<rparr>) s"
  have "join_refused ?s1 rid" using r by (simp add: join_refused_def)
  then have "join_adventure_party (JStr rid) pid now ?s1 = (Inr False, ?s1)"
    by (rule join_adventure_party_refused)
  then show "handle_join_adventure pid d now s = (None, send pid (join_failed (JStr rid)) ?s1)"
    by (simp add: handle_join_adventure_def Let_def k)
next
  assume "\<not> join_refused s rid"
  then show "\<exists>p s' p'. map_of (adventure_parties s) rid = Some p
         \<and> join_adventure_party (JStr rid) pid now s = (Inr True, s')
         \<and> map_of (adventure_parties s') rid = Some p'
         \<and> members p' = members p @ [pid]
         \<and> creatures p' = creatures p @ [creature (handlers s pid)]
         \<and> usernames p' = usernames p @ [username (handlers s pid)]"
    by (rule join_adventure_party_accepted)
qed

lemma party_waiting_serial: "serial party_waiting"
  unfolding party_waiting_def
  by (rule serial_run_enabled[OF serial_init]) (simp add: party_events_def, code_simp)

lemma party_active_serial: "serial party_active"
  unfolding party_active_def
  by (rule serial_step[OF party_waiting_serial]) code_simp

lemma party_examples:
  "join_refused party_active ''a''" "\<not> join_refused party_waiting ''a''"
  by code_simp+

theorem join_party_outcome_witness:
  "join_refused party_active ''a''
   \<and> join_adventure_party (JStr ''a'') ''k'' 5 party_active = (Inr False, party_active)
   \<and> \<not> join_refused party_waiting ''a''
   \<and> fst (join_adventure_party (JStr ''a'') ''j'' 2 party_waiting) = Inr True"
  using join_party_outcome[of party_active "''a''" "''k''" 5 "[]"]
    join_party_outcome[of party_waiting "''a''" "''j''" 2 "[]"] party_examples
  by auto

text \<open>
  The claim as stated fails where it says that the failure distinguishes a full party from
  one that is not waiting: for a waiting party of four and for an active party of two, under
  the same room id, the join returns the same \<open>False\<close> and the joining session is handed
  the same message.
\<close>

theorem join_party_outcome_counterexample:
  "map_option members (map_of (adventure_parties party_full) ''a'') = Some [''h'', ''j'', ''l'', ''m'']
  \<and> map_option state (map_of (adventure_parties party_full) ''a'') = Some ''waiting''
  \<and> map_option members (map_of (adventure_parties party_active) ''a'') = Some [''h'', ''j'']
  \<and> map_option state (map_of (adventure_parties party_active) ''a'') = Some ''active''
  \<and> fst (join_adventure_party (JStr ''a'') ''k'' 5 party_full) = Inr False
  \<and> fst (join_adventure_party (JStr ''a'') ''k'' 5 party_active) = Inr False
  \<and> sent_during party_full (step (Frame ''k'' 5 [] (join_adventure_msg ''a'')) party_full)
     = [(''k'', JDict [(''type'', JStr ''ADVENTURE_JOIN_FAILED''), (''adventure_id'', JStr ''a''),
                      (''message'', JStr ''Failed to join adventure party'')])]
  \<and> sent_during party_active (step (Frame ''k'' 5 [] (join_adventure_msg ''a'')) party_active)
     = [(''k'', JDict [(''type'', JStr ''ADVENTURE_JOIN_FAILED''), (''adventure_id'', JStr ''a''),
                      (''message'', JStr ''Failed to join adventure party'')])]"
  by code_simp

subsection \<open>The parties of a serial execution\<close>

lemma set_update_subset: "set (AList.update k v al) \<subseteq> insert (k, v) (set al)"
  by (induction al) auto

lemma set_delete_subset: "set (AList.delete k al) \<subseteq> set al"
  by (auto simp: AList.delete_eq)

lemma parties_okI:
  "(\<And>aid p. (aid, p) \<in> set (adventure_parties s) \<Longrightarrow> party_ok (clients s) p) \<Longrightarrow> parties_ok s"
  by (auto simp: parties_ok_def)

lemma parties_okD:
  "parties_ok s \<Longrightarrow> map_of (adventure_parties s) aid = Some p \<Longrightarrow> party_ok (clients s) p"
  by (auto simp: parties_ok_def dest: map_of_SomeD)

lemma parties_ok_same:
  "parties_ok s \<Longrightarrow> adventure_parties s' = adventure_parties s \<Longrightarrow> clients s \<subseteq> clients s'
   \<Longrightarrow> parties_ok s'"
  by (fastforce simp: parties_ok_def party_ok_def)

lemma parties_ok_update:
  assumes "parties_ok s" "party_ok (clients s) p" "clients s' = clients s"
    "adventure_parties s' = AList.update aid p (adventure_parties s)"
  shows "parties_ok s'"
  using assms set_update_subset[of aid p "adventure_parties s"]
  by (fastforce simp: parties_ok_def)

lemma parties_ok_delete:
  assumes "parties_ok s" "clients s' = clients s"
    "adventure_parties s' = AList.delete aid (adventure_parties s)"
  shows "parties_ok s'"
  using assms set_delete_subset[of aid "adventure_parties s"]
  by (fastforce simp: parties_ok_def)

lemma create_adventure_party_ok:
  "parties_ok s \<Longrightarrow> pid \<in> clients s \<Longrightarrow> parties_ok (create_adventure_party aid pid now s)"
  by (rule parties_ok_update[where aid = aid and p = "\<lparr> party_ident = aid, host = pid, members = [pid],
              creatures = [creature (handlers s pid)],
              usernames = [username (handlers s pid)],
              state = ''waiting'', creation_time = now, party_last_activity = now \<rparr>"])
     (simp_all add: party_ok_def create_adventure_party_def)

lemma join_adventure_party_parties:
  "adventure_parties (snd (join_adventure_party k pid now s)) = adventure_parties s
   \<or> (\<exists>aid p. map_of (adventure_parties s) aid = Some p \<and> state p = ''waiting''
        \<and> adventure_parties (snd (join_adventure_party k pid now s)) =
           AList.update aid
             (joined p pid (handlers s pid) now)
             (adventure_parties s))"
  by (auto simp: join_adventure_party_def joined_def Let_def split: option.splits json.splits)

lemma join_adventure_party_ok:
  assumes "parties_ok s" "pid \<in> clients s"
  shows "parties_ok (snd (join_adventure_party k pid now s))"
  using join_adventure_party_parties[of k pid now s]
proof (elim disjE exE conjE)
  assume "adventure_parties (snd (join_adventure_party k pid now s)) = adventure_parties s"
  with assms(1) show ?thesis by (rule parties_ok_same) simp
next
  fix aid p
  assume p: "map_of (adventure_parties s) aid = Some p" "state p = ''waiting''"
    and eq: "adventure_parties (snd (join_adventure_party k pid now s)) =
           AList.update aid
             (joined p pid (handlers s pid) now)
             (adventure_parties s)"
  from parties_okD[OF assms(1) p(1)] p(2) assms(2)
  have "party_ok (clients s) (joined p pid (handlers s pid) now)"
    by (simp add: party_ok_def joined_def)
  from parties_ok_update[OF assms(1) this _ eq] show ?thesis by simp
qed


lemma index_of_less: "x \<in> set xs \<Longrightarrow> index_of x xs < length xs"
  by (induction xs) auto

lemma index_of_nth: "x \<in> set xs \<Longrightarrow> xs ! index_of x xs = x"
  by (induction xs) auto

lemma remove_from_adventure_eq:
  assumes "map_of (adventure_parties s) aid = Some p" "pid \<in> set (members p)"
    "length (creatures p) = length (members p)" "length (usernames p) = length (members p)"
  shows "remove_from_adventure (Some aid) pid now s =
     (None,
      if members (departed p pid now) = []
      then s\<lparr> adventure_parties := AList.delete aid (adventure_parties s) \<rparr>
      else broadcast_adventure_update aid now
             (s\<lparr> adventure_parties := AList.update aid (departed p pid now) (adventure_parties s) \<rparr>))"
proof -
  have i: "index_of pid (members p) < length (members p)" using assms(2) by (rule index_of_less)
  show ?thesis
    using assms i
    by (auto simp: remove_from_adventure_def departed_def Let_def pop_def intro!: arg_cong2[where f = "broadcast_adventure_update aid"] arg_cong[where f = "\<lambda>x. AList.update aid x _"])
qed

lemma departed_ok:
  assumes "party_ok cs p" "pid \<in> set (members p)" "members (departed p pid now) \<noteq> []"
  shows "party_ok cs (departed p pid now)"
proof -
  have i: "index_of pid (members p) < length (members p)" using assms(2) by (rule index_of_less)
  have sub: "set (take i xs @ drop (Suc i) xs) \<subseteq> set xs" for i and xs :: "string list"
    by (auto dest: in_set_takeD in_set_dropD)
  show ?thesis
    using assms i sub[of "index_of pid (members p)" "members p"]
    by (auto simp: party_ok_def departed_def Let_def)
qed

lemma remove_from_adventure_ok:
  assumes "parties_ok s"
  shows "parties_ok (snd (remove_from_adventure k pid now s))"
proof (cases k)
  case None
  then show ?thesis using assms by (simp add: remove_from_adventure_def)
next
  case (Some aid)
  show ?thesis
  proof (cases "map_of (adventure_parties s) aid")
    case None
    then show ?thesis using assms Some by (simp add: remove_from_adventure_def)
  next
    case (Some p)
    note p = this
    show ?thesis
    proof (cases "pid \<in> set (members p)")
      case False
      then show ?thesis using assms p \<open>k = Some aid\<close> by (simp add: remove_from_adventure_def)
    next
      case True
      have ok: "party_ok (clients s) p" using assms p by (rule parties_okD)
      then have len: "length (creatures p) = length (members p)" "length (usernames p) = length (members p)"
        by (simp_all add: party_ok_def)
      note eq = remove_from_adventure_eq[OF p True len, of now]
      show ?thesis
      proof (cases "members (departed p pid now) = []")
        case True
        then show ?thesis
          using parties_ok_delete[OF assms, of _ aid] by (simp add: \<open>k = Some aid\<close> eq)
      next
        case False
        from departed_ok[OF ok True False]
        show ?thesis
          using parties_ok_update[OF assms, of "departed p pid now" _ aid] False
          by (simp add: \<open>k = Some aid\<close> eq)
      qed
    qed
  qed
qed

lemma process_adventure_update_parties:
  "adventure_parties (process_adventure_update k pid d now s) = adventure_parties s
   \<or> (\<exists>aid p. map_of (adventure_parties s) aid = Some p
        \<and> adventure_parties (process_adventure_update k pid d now s)
            = AList.update aid (p\<lparr> party_last_activity := now \<rparr>) (adventure_parties s))"
  by (auto simp: process_adventure_update_def Let_def fold_cond_send_fields split: option.splits)

lemma process_adventure_update_ok:
  assumes "parties_ok s"
  shows "parties_ok (process_adventure_update k pid d now s)"
  using process_adventure_update_parties[of k pid d now s]
proof (elim disjE exE conjE)
  assume "adventure_parties (process_adventure_update k pid d now s) = adventure_parties s"
  with assms show ?thesis by (rule parties_ok_same) simp
next
  fix aid p
  assume p: "map_of (adventure_parties s) aid = Some p"
    and eq: "adventure_parties (process_adventure_update k pid d now s)
            = AList.update aid (p\<lparr> party_last_activity := now \<rparr>) (adventure_parties s)"
  from parties_okD[OF assms p] have "party_ok (clients s) (p\<lparr> party_last_activity := now \<rparr>)"
    by (simp add: party_ok_def)
  from parties_ok_update[OF assms this _ eq] show ?thesis by simp
qed

lemma handle_join_lobby_fields [simp]:
  "clients (handle_join_lobby pid d now s) = clients s"
  "battles (handle_join_lobby pid d now s) = battles s"
  "adventure_parties (handle_join_lobby pid d now s) = adventure_parties s"
  by (simp_all add: handle_join_lobby_def Let_def split: option.splits)

lemma handle_leave_lobby_fields [simp]:
  "clients (handle_leave_lobby pid now s) = clients s"
  "battles (handle_leave_lobby pid now s) = battles s"
  "adventure_parties (handle_leave_lobby pid now s) = adventure_parties s"
  "lobby (handle_leave_lobby pid now s) = (if in_lobby (handlers s pid) then remove1 pid (lobby s) else lobby s)"
  by (simp_all add: handle_leave_lobby_def)

lemma handle_battle_action_fields [simp]:
  "clients (handle_battle_action pid d now s) = clients s"
  "lobby (handle_battle_action pid d now s) = lobby s"
  "adventure_parties (handle_battle_action pid d now s) = adventure_parties s"
  by (simp_all add: handle_battle_action_def)

lemma handle_create_adventure_fields [simp]:
  "clients (handle_create_adventure pid d aid now s) = clients s"
  "lobby (handle_create_adventure pid d aid now s) = lobby s"
  "battles (handle_create_adventure pid d aid now s) = battles s"
  by (simp_all add: handle_create_adventure_def Let_def)

lemma handle_join_adventure_fields [simp]:
  "clients (snd (handle_join_adventure pid d now s)) = clients s"
  "lobby (snd (handle_join_adventure pid d now s)) = lobby s"
  "battles (snd (handle_join_adventure pid d now s)) = battles s"
  by (simp_all add: handle_join_adventure_def Let_def case_prod_beta split: sum.splits)

lemma handle_adventure_update_fields [simp]:
  "clients (handle_adventure_update pid d now s) = clients s"
  "lobby (handle_adventure_update pid d now s) = lobby s"
  "battles (handle_adventure_update pid d now s) = battles s"
  by (simp_all add: handle_adventure_update_def)

lemma handle_get_adventure_parties_fields [simp]:
  "clients (snd (handle_get_adventure_parties pid s)) = clients s"
  "lobby (snd (handle_get_adventure_parties pid s)) = lobby s"
  "battles (snd (handle_get_adventure_parties pid s)) = battles s"
  "adventure_parties (snd (handle_get_adventure_parties pid s)) = adventure_parties s"
  by (simp_all add: handle_get_adventure_parties_def split: sum.splits)

lemma clean_up_fields [simp]:
  "clients (snd (clean_up pid now s)) = clients s"
  by (simp add: clean_up_def Let_def case_prod_beta split: option.splits)

lemma dispatch_snd:
  "snd (dispatch pid now uuid data s) =
     (case data of
        JDict d \<Rightarrow>
          let message_type = dict_get d ''type'' (JStr []) in
          if message_type = JStr ''JOIN_LOBBY'' then handle_join_lobby pid d now s
          else if message_type = JStr ''LEAVE_LOBBY'' then handle_leave_lobby pid now s
          else if message_type = JStr ''BATTLE_ACTION'' then handle_battle_action pid d now s
          else if message_type = JStr ''CREATE_ADVENTURE'' then handle_create_adventure pid d uuid now s
          else if message_type = JStr ''JOIN_ADVENTURE'' then snd (handle_join_adventure pid d now s)
          else if message_type = JStr ''ADVENTURE_UPDATE'' then handle_adventure_update pid d now s
          else if message_type = JStr ''GET_ADVENTURE_PARTIES'' then snd (handle_get_adventure_parties pid s)
          else s
      | _ \<Rightarrow> s)"
  by (simp add: dispatch_def Let_def case_prod_beta split: json.splits option.splits)

lemma dispatch_cases:
  obtains (ignored) "snd (dispatch pid now uuid data s) = s"
  | (join_lobby) d where "snd (dispatch pid now uuid data s) = handle_join_lobby pid d now s"
  | (leave_lobby) "snd (dispatch pid now uuid data s) = handle_leave_lobby pid now s"
  | (battle_action) d where "snd (dispatch pid now uuid data s) = handle_battle_action pid d now s"
  | (create_adventure) d where
      "snd (dispatch pid now uuid data s) = handle_create_adventure pid d uuid now s"
  | (join_adventure) d where
      "snd (dispatch pid now uuid data s) = snd (handle_join_adventure pid d now s)"
  | (adventure_update) d where
      "snd (dispatch pid now uuid data s) = handle_adventure_update pid d now s"
  | (get_adventure_parties)
      "snd (dispatch pid now uuid data s) = snd (handle_get_adventure_parties pid s)"
proof (cases data)
  case (JDict d)
  define mt where "mt = dict_get d ''type'' (JStr [])"
  have eq: "snd (dispatch pid now uuid data s) =
         (if mt = JStr ''JOIN_LOBBY'' then handle_join_lobby pid d now s
          else if mt = JStr ''LEAVE_LOBBY'' then handle_leave_lobby pid now s
          else if mt = JStr ''BATTLE_ACTION'' then handle_battle_action pid d now s
          else if mt = JStr ''CREATE_ADVENTURE'' then handle_create_adventure pid d uuid now s
          else if mt = JStr ''JOIN_ADVENTURE'' then snd (handle_join_adventure pid d now s)
          else if mt = JStr ''ADVENTURE_UPDATE'' then handle_adventure_update pid d now s
          else if mt = JStr ''GET_ADVENTURE_PARTIES'' then snd (handle_get_adventure_parties pid s)
          else s)"
    by (simp only: dispatch_snd JDict json.case Let_def mt_def)
  show ?thesis
    by (cases "mt = JStr ''JOIN_LOBBY''"; cases "mt = JStr ''LEAVE_LOBBY''";
        cases "mt = JStr ''BATTLE_ACTION''"; cases "mt = JStr ''CREATE_ADVENTURE''";
        cases "mt = JStr ''JOIN_ADVENTURE''"; cases "mt = JStr ''ADVENTURE_UPDATE''";
        cases "mt = JStr ''GET_ADVENTURE_PARTIES''")
       (use eq that in \<open>simp_all (no_asm_simp)\<close>)
qed (use ignored in \<open>simp_all add: dispatch_snd\<close>)

lemma parties_ok_frame [simp]:
  "parties_ok (send p m s) = parties_ok s"
  "parties_ok (upd_handler p f s) = parties_ok s"
  by (simp_all add: parties_ok_def)

lemma handle_create_adventure_ok:
  "parties_ok s \<Longrightarrow> pid \<in> clients s \<Longrightarrow> parties_ok (handle_create_adventure pid d aid now s)"
  by (simp add: handle_create_adventure_def Let_def create_adventure_party_ok)

lemma handle_join_adventure_ok:
  "parties_ok s \<Longrightarrow> pid \<in> clients s \<Longrightarrow> parties_ok (snd (handle_join_adventure pid d now s))"
proof -
  assume a: "parties_ok s" "pid \<in> clients s"
  let ?s1 = "upd_handler pid (\<lambda>c. c\<lparr> creature := dict_get d ''creature'' (JDict []) \<rparr>) s"
  have "parties_ok (snd (join_adventure_party (dict_get d ''party_id'' (JStr [])) pid now ?s1))"
    by (rule join_adventure_party_ok) (use a in simp_all)
  then show ?thesis
    by (simp add: handle_join_adventure_def Let_def case_prod_beta split: sum.splits)
qed

lemma handle_adventure_update_ok:
  "parties_ok s \<Longrightarrow> parties_ok (handle_adventure_update pid d now s)"
  by (simp add: handle_adventure_update_def process_adventure_update_ok)

text \<open>The state in which \<open>clean_up\<close> reaches its third test, and the state it ends in.\<close>

lemma clean_up_snd:
  fixes s pid now
  defines "s1 \<equiv> (if in_lobby (handlers s pid) then remove_from_lobby pid now s else s)"
  defines "s2 \<equiv> (if in_battle (handlers s1 pid)
                   then end_battle (battle_id (handlers s1 pid)) (Some pid) s1 else s1)"
  defines "s3 \<equiv> (if in_adventure (handlers s2 pid)
                   then snd (remove_from_adventure (adventure_id (handlers s2 pid)) pid now s2) else s2)"
  shows "snd (clean_up pid now s) = s3
       \<or> snd (clean_up pid now s) = upd_handler pid (\<lambda>c. c\<lparr> running := False \<rparr>) s3"
proof -
  have eq: "clean_up pid now s =
      (if in_adventure (handlers s2 pid)
         then (case remove_from_adventure (adventure_id (handlers s2 pid)) pid now s2 of
                 (Some e, s3) \<Rightarrow> (Some e, s3)
               | (None, s3) \<Rightarrow> (None, upd_handler pid (\<lambda>c. c\<lparr> running := False \<rparr>) s3))
         else (None, upd_handler pid (\<lambda>c. c\<lparr> running := False \<rparr>) s2))"
    by (simp only: clean_up_def Let_def s1_def s2_def)
  show ?thesis
  proof (cases "in_adventure (handlers s2 pid)")
    case False
    then show ?thesis by (simp add: eq s3_def)
  next
    case True
    obtain e t where r: "remove_from_adventure (adventure_id (handlers s2 pid)) pid now s2 = (e, t)"
      by (cases "remove_from_adventure (adventure_id (handlers s2 pid)) pid now s2")
    show ?thesis using True by (cases e) (simp_all add: eq s3_def r)
  qed
qed

lemma clean_up_ok: "parties_ok s \<Longrightarrow> parties_ok (snd (clean_up pid now s))"
proof -
  assume a: "parties_ok s"
  define s1 where "s1 = (if in_lobby (handlers s pid) then remove_from_lobby pid now s else s)"
  define s2 where "s2 = (if in_battle (handlers s1 pid)
                   then end_battle (battle_id (handlers s1 pid)) (Some pid) s1 else s1)"
  define s3 where "s3 = (if in_adventure (handlers s2 pid)
                   then snd (remove_from_adventure (adventure_id (handlers s2 pid)) pid now s2) else s2)"
  have "parties_ok s1" using a by (rule parties_ok_same) (simp_all add: s1_def)
  then have "parties_ok s2" by (rule parties_ok_same) (simp_all add: s2_def)
  then have "parties_ok s3" by (simp add: s3_def remove_from_adventure_ok)
  then show ?thesis
    using clean_up_snd[of pid now s] by (auto simp: s1_def s2_def s3_def)
qed

lemma step_parties_ok:
  assumes "parties_ok s" "enabled e s"
  shows "parties_ok (step e s)"
proof (cases e)
  case (Accept pid)
  then show ?thesis using assms(1) by (auto intro: parties_ok_same)
next
  case (Frame pid now uuid data)
  with assms(2) have pid: "pid \<in> clients s" by simp
  have "parties_ok (snd (dispatch pid now uuid data s))"
  proof (cases rule: dispatch_cases[of pid now uuid data s])
    case ignored
    then show ?thesis using assms(1) by simp
  next
    case (join_lobby d)
    then show ?thesis using assms(1) by (auto intro: parties_ok_same)
  next
    case leave_lobby
    then show ?thesis using assms(1) by (auto intro: parties_ok_same)
  next
    case (battle_action d)
    then show ?thesis using assms(1) by (auto intro: parties_ok_same)
  next
    case (create_adventure d)
    then show ?thesis using assms(1) pid by (simp add: handle_create_adventure_ok)
  next
    case (join_adventure d)
    then show ?thesis using assms(1) pid by (simp add: handle_join_adventure_ok)
  next
    case (adventure_update d)
    then show ?thesis using assms(1) by (simp add: handle_adventure_update_ok)
  next
    case get_adventure_parties
    then show ?thesis using assms(1) by (auto intro: parties_ok_same)
  qed
  then show ?thesis by (simp add: Frame)
next
  case (Match bid now)
  then show ?thesis using assms(1) by (auto intro: parties_ok_same)
next
  case (Disconnect pid now)
  then show ?thesis using assms(1) by (simp add: clean_up_ok)
qed

lemma serial_parties_ok: "serial s \<Longrightarrow> parties_ok s"
proof (induction rule: serial.induct)
  case serial_init
  then show ?case by (simp add: parties_ok_def)
next
  case (serial_step s e)
  then show ?case by (simp add: step_parties_ok)
qed

lemma join_adventure_party_split:
  "join_adventure_party party_id pid now s =
     (let r = join_adventure_party_begin party_id pid now s
      in if fst r = Inr True
         then (Inr True, join_adventure_party_finish (the (key_of party_id)) now (snd r))
         else r)"
  by (auto simp: join_adventure_party_def join_adventure_party_begin_def
      join_adventure_party_finish_def Let_def AList.update_conv'
      split: option.splits json.splits)

text \<open>
  Claim C10, for the serial executions. In every state the server reaches when each handler
  call, matchmaking pass and clean-up runs to completion before the next begins, a party has
  at most two members, and one while it waits: a party starts with its creator alone, a join
  succeeds on a waiting party only, and a join that brings the members to two makes the
  party active. So in these states the test for four members in \<open>join_adventure_party\<close>
  is false for every party.
\<close>

theorem party_at_most_two:
  "serial s \<Longrightarrow> map_of (adventure_parties s) aid = Some p \<Longrightarrow>
   length (members p) \<le> 2 \<and> (state p = ''waiting'' \<longrightarrow> length (members p) = 1)
   \<and> \<not> length (members p) \<ge> 4"
  using parties_okD[OF serial_parties_ok, of s aid p] by (simp add: party_ok_def)

lemma party_active_a:
  "map_of (adventure_parties party_active) ''a'' =
     Some \<lparr> party_ident = ''a'', host = ''h'', members = [''h'', ''j''],
            creatures = [JStr ''Skeleton'', JStr ''Knight''],
            usernames = [JStr ''Player_h'', JStr ''Player_j''],
            state = ''active'', creation_time = 1, party_last_activity = 2 \<rparr>"
  by code_simp

theorem party_at_most_two_witness:
  "serial party_active
   \<and> map_option members (map_of (adventure_parties party_active) ''a'') = Some [''h'', ''j'']
   \<and> length [''h'', ''j''] \<le> (2::nat)"
  using party_at_most_two[OF party_active_serial party_active_a] party_active_serial
  by (simp add: party_active_a)

text \<open>
  The claim as stated, for every state the server can reach, fails: the server has a thread
  for each connection and no lock, and \<open>join_adventure_party\<close> sends to the members,
  which blocks, after it has appended the joiner and before it sets the state to
  \<open>"active"\<close>. Party \<open>a\<close> waits with its host \<open>h\<close>, in a state of a serial execution.
  The thread of \<open>j\<close> runs the first part of its join and is suspended in the sends; the
  thread of \<open>k\<close> then finds the party waiting with two members, which is fewer than four,
  and joins too. When both threads have finished, the party has three members.
\<close>

theorem party_at_most_two_counterexample:
  "enabled_run party_events init_server
   \<and> fst (join_adventure_party_begin (JStr ''a'') ''j'' 2 party_waiting) = Inr True
   \<and> fst (join_adventure_party_begin (JStr ''a'') ''k'' 3
            (snd (join_adventure_party_begin (JStr ''a'') ''j'' 2 party_waiting))) = Inr True
   \<and> map_option state
        (map_of (adventure_parties
           (snd (join_adventure_party_begin (JStr ''a'') ''j'' 2 party_waiting))) ''a'') = Some ''waiting''
   \<and> map_option members (map_of (adventure_parties interleaved_joins) ''a'')
        = Some [''h'', ''j'', ''k'']
   \<and> map_option state (map_of (adventure_parties interleaved_joins) ''a'') = Some ''active''
   \<and> \<not> length [''h'', ''j'', ''k''] \<le> (2::nat)"
  by code_simp

subsection \<open>Leaving an adventure party\<close>

lemma take_drop_index_of: "x \<in> set xs \<Longrightarrow> take (index_of x xs) xs @ drop (Suc (index_of x xs)) xs = remove1 x xs"
  by (induction xs) auto

lemma list_parties_ok:
  "\<forall>(aid, p) \<in> set al. usernames p \<noteq> [] \<Longrightarrow> list_parties al = Inr (waiting_listing al)"
proof (induction al)
  case Nil
  then show ?case by (simp add: waiting_listing_def)
next
  case (Cons a al)
  obtain aid p where a: "a = (aid, p)" by (cases a)
  from Cons.prems a obtain u us where u: "usernames p = u # us" by (cases "usernames p") auto
  from Cons have "list_parties al = Inr (waiting_listing al)" by simp
  then show ?case by (simp add: a u waiting_listing_def)
qed

lemma get_adventure_parties_ok:
  "parties_ok s \<Longrightarrow> get_adventure_parties s = Inr (waiting_listing (adventure_parties s))"
  unfolding get_adventure_parties_def
  by (rule list_parties_ok) (fastforce simp: parties_ok_def party_ok_def)

lemma get_adventure_parties_wf:
  "parties_wf s \<Longrightarrow> get_adventure_parties s = Inr (waiting_listing (adventure_parties s))"
  unfolding get_adventure_parties_def
  by (rule list_parties_ok) (fastforce simp: parties_wf_def party_wf_def list_all_iff)

lemma parties_ok_wf: "parties_ok s \<Longrightarrow> parties_wf s"
  by (auto simp: parties_ok_def parties_wf_def party_ok_def party_wf_def list_all_iff)

lemma parties_wfD:
  "parties_wf s \<Longrightarrow> map_of (adventure_parties s) aid = Some p \<Longrightarrow> party_wf (clients s) p"
  by (auto simp: parties_wf_def list_all_iff dest: map_of_SomeD)

lemma parties_wf_update:
  assumes "parties_wf s" "party_wf (clients s) p" "clients s' = clients s"
    "adventure_parties s' = AList.update aid p (adventure_parties s)"
  shows "parties_wf s'"
  using assms set_update_subset[of aid p "adventure_parties s"]
  by (fastforce simp: parties_wf_def list_all_iff)

lemma parties_wf_delete:
  assumes "parties_wf s" "clients s' = clients s"
    "adventure_parties s' = AList.delete aid (adventure_parties s)"
  shows "parties_wf s'"
  using assms set_delete_subset[of aid "adventure_parties s"]
  by (fastforce simp: parties_wf_def list_all_iff)

lemma departed_wf:
  assumes "party_wf cs p" "pid \<in> set (members p)" "members (departed p pid now) \<noteq> []"
  shows "party_wf cs (departed p pid now)"
proof -
  have i: "index_of pid (members p) < length (members p)" using assms(2) by (rule index_of_less)
  have sub: "set (take i xs @ drop (Suc i) xs) \<subseteq> set xs" for i and xs :: "string list"
    by (auto dest: in_set_takeD in_set_dropD)
  show ?thesis
    using assms i sub[of "index_of pid (members p)" "members p"]
    by (auto simp: party_wf_def departed_def Let_def)
qed

lemma remove_from_adventure_wf:
  assumes "parties_wf s" "map_of (adventure_parties s) aid = Some p" "pid \<in> set (members p)"
  shows "parties_wf (snd (remove_from_adventure (Some aid) pid now s))"
proof -
  have wf: "party_wf (clients s) p" using assms(1,2) by (rule parties_wfD)
  then have len: "length (creatures p) = length (members p)" "length (usernames p) = length (members p)"
    by (simp_all add: party_wf_def)
  note eq = remove_from_adventure_eq[OF assms(2,3) len, of now]
  show ?thesis
  proof (cases "members (departed p pid now) = []")
    case True
    then show ?thesis
      using parties_wf_delete[OF assms(1), of _ aid] by (simp add: eq)
  next
    case False
    from departed_wf[OF wf assms(3) False]
    show ?thesis
      using parties_wf_update[OF assms(1), of "departed p pid now" _ aid] False
      by (simp add: eq)
  qed
qed

text \<open>
  Well-formedness does not depend on the calls being serial: each part of a join that
  interleaves with other calls keeps it.
\<close>

lemma join_adventure_party_begin_wf:
  assumes "parties_wf s" "pid \<in> clients s"
  shows "parties_wf (snd (join_adventure_party_begin k pid now s))"
proof (cases "\<exists>aid p. k = JStr aid \<and> map_of (adventure_parties s) aid = Some p
                \<and> \<not> length (members p) \<ge> 4 \<and> state p = ''waiting''")
  case False
  then have "snd (join_adventure_party_begin k pid now s) = s"
    by (auto simp: join_adventure_party_begin_def split: json.splits option.splits)
  with assms(1) show ?thesis by simp
next
  case True
  then obtain aid p where k: "k = JStr aid" and p: "map_of (adventure_parties s) aid = Some p"
    and t: "\<not> length (members p) \<ge> 4" "state p = ''waiting''" by blast
  let ?p1 = "p\<lparr> members := members p @ [pid],
                 creatures := creatures p @ [creature (handlers s pid)],
                 usernames := usernames p @ [username (handlers s pid)],
                 party_last_activity := now \<rparr>"
  have "party_wf (clients s) ?p1"
    using parties_wfD[OF assms(1) p] assms(2) by (simp add: party_wf_def)
  from parties_wf_update[OF assms(1) this, of _ aid] show ?thesis
    using k p t by (simp add: join_adventure_party_begin_def Let_def)
qed

lemma join_adventure_party_finish_wf:
  assumes "parties_wf s"
  shows "parties_wf (join_adventure_party_finish aid now s)"
proof (cases "map_of (adventure_parties s) aid")
  case None
  with assms show ?thesis by (simp add: join_adventure_party_finish_def)
next
  case (Some p)
  have "party_wf (clients s) (p\<lparr> state := ''active'' \<rparr>)"
    using parties_wfD[OF assms Some] by (simp add: party_wf_def)
  from parties_wf_update[OF assms this, of _ aid] show ?thesis
    using Some assms by (simp add: join_adventure_party_finish_def)
qed

text \<open>
  Claim C7. Let \<open>pid\<close> be a member of party \<open>aid\<close>, in a state whose party records are
  well formed (each has a member, as many creatures and usernames as members, and
  registered members). Then \<open>remove_from_adventure\<close> raises nothing; no other party
  changes. If \<open>pid\<close> was the only member, the party is deleted from the dict and nothing
  is sent. Otherwise the party loses the first entry of \<open>pid\<close> in \<open>members\<close> and the
  entries at the same index in \<open>creatures\<close> and \<open>usernames\<close>, and nothing else; its host
  is the first remaining member when \<open>pid\<close> was the host, and the old host otherwise; and
  every remaining member is handed one \<open>ADVENTURE_PARTY_UPDATE\<close> that carries the
  remaining members, creatures and usernames and, under \<open>"host"\<close>, the id of that host.
  \<open>get_adventure_parties\<close> returns, for the waiting parties of the dict and for no
  other, the id, host, first username, member count and creation time: a deleted party is
  not listed.
\<close>

theorem leave_party:
  assumes "parties_wf s" and "map_of (adventure_parties s) aid = Some p" and "pid \<in> set (members p)"
    and "remove_from_adventure (Some aid) pid now s = (e, s')"
  shows "e = None
     \<and> (\<forall>other. other \<noteq> aid \<longrightarrow> map_of (adventure_parties s') other = map_of (adventure_parties s) other)
     \<and> (remove1 pid (members p) = [] \<longrightarrow>
           aid \<notin> fst ` set (adventure_parties s') \<and> sent_during s s' = [])
     \<and> (remove1 pid (members p) \<noteq> [] \<longrightarrow>
           map_of (adventure_parties s') aid =
             Some (p\<lparr> members := remove1 pid (members p),
                      creatures := take (index_of pid (members p)) (creatures p)
                                   @ drop (Suc (index_of pid (members p))) (creatures p),
                      usernames := take (index_of pid (members p)) (usernames p)
                                   @ drop (Suc (index_of pid (members p))) (usernames p),
                      party_last_activity := now,
                      host := (if pid = host p then hd (remove1 pid (members p)) else host p) \<rparr>)
           \<and> sent_during s s' =
               map (\<lambda>m. (m, JDict [(''type'', JStr ''ADVENTURE_PARTY_UPDATE''),
                                   (''adventure_id'', JStr aid),
                                   (''members'', JList (map JStr (remove1 pid (members p)))),
                                   (''creatures'',
                                      JList (take (index_of pid (members p)) (creatures p)
                                             @ drop (Suc (index_of pid (members p))) (creatures p))),
                                   (''usernames'',
                                      JList (take (index_of pid (members p)) (usernames p)
                                             @ drop (Suc (index_of pid (members p))) (usernames p))),
                                   (''host'',
                                      JStr (if pid = host p then hd (remove1 pid (members p)) else host p)),
                                   (''state'', JStr (state p)),
                                   (''timestamp'', JFloat now)]))
                   (remove1 pid (members p)))
     \<and> get_adventure_parties s' =
         Inr (map (\<lambda>(a, q). JDict [(''id'', JStr a),
                                    (''host'', JStr (host q)),
                                    (''host_username'', usernames q ! 0),
                                    (''member_count'', JInt (int (length (members q)))),
                                    (''creation_time'', JFloat (creation_time q))])
                  (filter (\<lambda>(a, q). state q = ''waiting'') (adventure_parties s')))"
proof -
  have pwf: "party_wf (clients s) p" using assms(1,2) by (rule parties_wfD)
  then have len: "length (creatures p) = length (members p)" "length (usernames p) = length (members p)"
    and reg: "set (members p) \<subseteq> clients s"
    by (simp_all add: party_wf_def)
  note eq = remove_from_adventure_eq[OF assms(2,3) len, of now]
  have m: "members (departed p pid now) = remove1 pid (members p)"
    using assms(3) by (simp add: departed_def Let_def take_drop_index_of)
  have reg': "filter (\<lambda>c. c \<in> clients s) (remove1 pid (members p)) = remove1 pid (members p)"
    using reg by (auto simp: filter_id_conv dest: notin_set_remove1)
  have e: "e = None" using assms(4) eq by simp
  have s': "s' = (if remove1 pid (members p) = []
      then s\<lparr> adventure_parties := AList.delete aid (adventure_parties s) \<rparr>
      else broadcast_adventure_update aid now
             (s\<lparr> adventure_parties := AList.update aid (departed p pid now) (adventure_parties s) \<rparr>))"
    using assms(4) eq by (simp add: m)
  have wf': "parties_wf s'"
    using remove_from_adventure_wf[OF assms(1,2,3), of now] assms(4) by simp
  have others: "\<forall>other. other \<noteq> aid \<longrightarrow> map_of (adventure_parties s') other = map_of (adventure_parties s) other"
    by (simp add: s' AList.update_conv' AList.delete_conv')
  have gone: "remove1 pid (members p) = [] \<longrightarrow>
           aid \<notin> fst ` set (adventure_parties s') \<and> sent_during s s' = []"
    by (simp add: s' AList.delete_notin_dom sent_during_def)
  have dep: "departed p pid now =
      p\<lparr> members := remove1 pid (members p),
         creatures := take (index_of pid (members p)) (creatures p)
                      @ drop (Suc (index_of pid (members p))) (creatures p),
         usernames := take (index_of pid (members p)) (usernames p)
                      @ drop (Suc (index_of pid (members p))) (usernames p),
         party_last_activity := now,
         host := (if pid = host p then hd (remove1 pid (members p)) else host p) \<rparr>"
    if "remove1 pid (members p) \<noteq> []"
    using that unfolding departed_def Let_def take_drop_index_of[OF assms(3)]
    by (auto simp: hd_conv_nth)
  have stay: "remove1 pid (members p) \<noteq> [] \<longrightarrow>
           map_of (adventure_parties s') aid = Some (departed p pid now)
           \<and> sent_during s s' =
               map (\<lambda>m. (m, party_update aid (departed p pid now) now)) (remove1 pid (members p))"
    by (simp add: s' AList.update_conv' broadcast_adventure_update_def sent_during_def m reg')
  have listing: "get_adventure_parties s' =
         Inr (map (\<lambda>(a, q). JDict [(''id'', JStr a),
                                    (''host'', JStr (host q)),
                                    (''host_username'', usernames q ! 0),
                                    (''member_count'', JInt (int (length (members q)))),
                                    (''creation_time'', JFloat (creation_time q))])
                  (filter (\<lambda>(a, q). state q = ''waiting'') (adventure_parties s')))"
    using get_adventure_parties_wf[OF wf'] by (simp add: waiting_listing_def party_entry_def)
  show ?thesis
  proof (cases "remove1 pid (members p) = []")
    case True
    with e others gone listing show ?thesis by simp
  next
    case False
    from stay False have 1: "map_of (adventure_parties s') aid = Some (departed p pid now)"
      and 2: "sent_during s s' =
               map (\<lambda>m. (m, party_update aid (departed p pid now) now)) (remove1 pid (members p))"
      by simp_all
    from e others False listing 1 2 show ?thesis
      unfolding dep[OF False] by (simp add: party_update_def)
  qed
qed

lemma party_waiting_a:
  "map_of (adventure_parties party_waiting) ''a'' =
     Some \<lparr> party_ident = ''a'', host = ''h'', members = [''h''],
            creatures = [JStr ''Skeleton''],
            usernames = [JStr ''Player_h''],
            state = ''waiting'', creation_time = 1, party_last_activity = 1 \<rparr>"
  by code_simp

theorem leave_party_witness:
  "parties_wf party_active
   \<and> map_option host (map_of (adventure_parties (snd (remove_from_adventure (Some ''a'') ''h'' 9 party_active))) ''a'')
     = Some ''j''
   \<and> sent_during party_active (snd (remove_from_adventure (Some ''a'') ''h'' 9 party_active))
     = [(''j'', JDict [(''type'', JStr ''ADVENTURE_PARTY_UPDATE''),
                      (''adventure_id'', JStr ''a''),
                      (''members'', JList [JStr ''j'']),
                      (''creatures'', JList [JStr ''Knight'']),
                      (''usernames'', JList [JStr ''Player_j'']),
                      (''host'', JStr ''j''),
                      (''state'', JStr ''active''),
                      (''timestamp'', JFloat 9)])]
   \<and> ''a'' \<notin> fst ` set (adventure_parties (snd (remove_from_adventure (Some ''a'') ''h'' 9 party_waiting)))
   \<and> get_adventure_parties (snd (remove_from_adventure (Some ''a'') ''h'' 9 party_waiting)) = Inr []"
proof -
  have 1: "''h'' \<in> set (members \<lparr> party_ident = ''a'', host = ''h'', members = [''h'', ''j''],
            creatures = [JStr ''Skeleton'', JStr ''Knight''],
            usernames = [JStr ''Player_h'', JStr ''Player_j''],
            state = ''active'', creation_time = 1, party_last_activity = 2 \<rparr>)" by simp
  have 2: "''h'' \<in> set (members \<lparr> party_ident = ''a'', host = ''h'', members = [''h''],
            creatures = [JStr ''Skeleton''],
            usernames = [JStr ''Player_h''],
            state = ''waiting'', creation_time = 1, party_last_activity = 1 \<rparr>)" by simp
  have a: "parties_wf party_active"
    by (rule parties_ok_wf[OF serial_parties_ok[OF party_active_serial]])
  have w: "parties_wf party_waiting"
    by (rule parties_ok_wf[OF serial_parties_ok[OF party_waiting_serial]])
  have l: "adventure_parties (snd (remove_from_adventure (Some ''a'') ''h'' 9 party_waiting)) = []"
    by code_simp
  show ?thesis
    using leave_party[OF a party_active_a 1 surjective_pairing, of 9]
      leave_party[OF w party_waiting_a 2 surjective_pairing, of 9] a
    by (simp add: l)
qed

subsection \<open>A party becomes active once\<close>

lemma join_adventure_party_eq:
  assumes "map_of (adventure_parties s) aid = Some p" "length (members p) < 4" "state p = ''waiting''"
  shows "join_adventure_party (JStr aid) pid now s =
    (Inr True,
     s\<lparr> adventure_parties := AList.update aid (joined p pid (handlers s pid) now) (adventure_parties s),
        outbox := outbox s
          @ map (\<lambda>m. (m, party_update aid
                          (p\<lparr> members := members p @ [pid],
                              creatures := creatures p @ [creature (handlers s pid)],
                              usernames := usernames p @ [username (handlers s pid)],
                              party_last_activity := now \<rparr>) now))
              (filter (\<lambda>c. c \<in> clients s) (members p @ [pid]))
          @ (if length (members p) \<ge> 1
             then map (\<lambda>m. (m, party_start aid (joined p pid (handlers s pid) now) now))
                    (filter (\<lambda>c. c \<in> clients s) (members p @ [pid]))
             else []) \<rparr>)"
  using assms
  by (simp add: join_adventure_party_def joined_def Let_def broadcast_adventure_update_def
      broadcast_adventure_start_def AList.update_conv' send_members_eq)

lemma adds_no_refl [simp]: "adds_no Q s s"
  by (simp add: adds_no_def)

lemma adds_no_trans: "adds_no Q s s' \<Longrightarrow> adds_no Q s' s'' \<Longrightarrow> adds_no Q s s''"
  by (fastforce simp: adds_no_def)

lemma adds_no_same: "outbox s' = outbox s \<Longrightarrow> adds_no Q s s'"
  by (simp add: adds_no_def)

lemma adds_no_map: "outbox s' = outbox s @ map (\<lambda>c. (c, m)) cs \<Longrightarrow> \<not> Q m \<Longrightarrow> adds_no Q s s'"
  by (auto simp: adds_no_def)

lemma adds_no_send: "\<not> Q m \<Longrightarrow> adds_no Q s (send r m s)"
  by (auto simp: adds_no_def)

lemma adds_no_send_after: "adds_no Q s s' \<Longrightarrow> \<not> Q m \<Longrightarrow> adds_no Q s (send r m s')"
  by (erule adds_no_trans) (rule adds_no_send)

lemma adds_no_upd_after: "adds_no Q s s' \<Longrightarrow> adds_no Q s (upd_handler p f s')"
  by (erule adds_no_trans) (rule adds_no_same, simp)

lemma is_start_for_type: "msg_type m \<noteq> JStr ''ADVENTURE_START'' \<Longrightarrow> \<not> is_start_for aid m"
  by (auto simp: is_start_for_def msg_type_def split: json.splits)

lemma is_start_for_party_start [simp]: "is_start_for aid (party_start aid' p now) = (aid' = aid)"
  by (auto simp: is_start_for_def party_start_def dict_get_def)

lemma quiet_broadcast_lobby_status: "adds_no (is_start_for aid) s (broadcast_lobby_status now s)"
  by (rule adds_no_map[where m = "lobby_status now s" and cs = "lobby s"])
     (simp_all add: is_start_for_type)

lemma quiet_add_to_lobby: "adds_no (is_start_for aid) s (add_to_lobby p now s)"
proof (cases "p \<in> set (lobby s)")
  case False
  have "adds_no (is_start_for aid) (s\<lparr> lobby := lobby s @ [p] \<rparr>)
          (broadcast_lobby_status now (s\<lparr> lobby := lobby s @ [p] \<rparr>))"
    by (rule quiet_broadcast_lobby_status)
  then show ?thesis using False by (simp add: add_to_lobby_def adds_no_def)
qed (simp add: add_to_lobby_def)

lemma quiet_remove_from_lobby: "adds_no (is_start_for aid) s (remove_from_lobby p now s)"
proof (cases "p \<in> set (lobby s)")
  case True
  have "adds_no (is_start_for aid) (s\<lparr> lobby := remove1 p (lobby s) \<rparr>)
          (broadcast_lobby_status now (s\<lparr> lobby := remove1 p (lobby s) \<rparr>))"
    by (rule quiet_broadcast_lobby_status)
  then show ?thesis using True by (simp add: remove_from_lobby_def adds_no_def)
qed (simp add: remove_from_lobby_def)

lemma quiet_notify_battle_end: "adds_no (is_start_for aid) s (notify_battle_end b w pl p s)"
  by (auto simp: notify_battle_end_def is_start_for_type intro!: adds_no_send_after adds_no_upd_after)

lemma quiet_end_battle: "adds_no (is_start_for aid) s (end_battle k pl s)"
proof -
  have *: "adds_no (is_start_for aid) s (t\<lparr> battles := x \<rparr>)" if "adds_no (is_start_for aid) s t" for t x
    using that by (simp add: adds_no_def)
  show ?thesis
    by (auto simp: end_battle_def Let_def split: option.splits
        intro!: * adds_no_trans[OF quiet_notify_battle_end quiet_notify_battle_end])
qed

lemma quiet_match_players: "adds_no (is_start_for aid) s (match_players bid now s)"
proof (cases "length (lobby s) < 2")
  case True
  then show ?thesis by (simp add: match_players_def)
next
  case False
  have *: "adds_no (is_start_for aid) s (t\<lparr> battles := x \<rparr>)" if "adds_no (is_start_for aid) s t" for t x
    using that by (simp add: adds_no_def)
  show ?thesis
    using False
    by (auto simp: match_players_def Let_def is_start_for_type
        intro!: adds_no_send_after adds_no_upd_after *
          adds_no_trans[OF quiet_remove_from_lobby quiet_remove_from_lobby])
qed

lemma quiet_process_battle_action: "adds_no (is_start_for aid) s (process_battle_action k p a now s)"
proof (cases k)
  case None
  then show ?thesis by (simp add: process_battle_action_def)
next
  case (Some bid)
  show ?thesis
  proof (cases "map_of (battles s) bid")
    case None
    then show ?thesis by (simp add: process_battle_action_def Some)
  next
    case (Some bt0)
    define bt where "bt = bt0\<lparr> battle_last_activity := now \<rparr>"
    define s1 where "s1 = s\<lparr> battles := AList.update bid bt (battles s) \<rparr>"
    define role where "role = (if p = player1 bt then ''player1'' else ''player2'')"
    define opp where "opp = (if role = ''player1'' then player2 bt else player1 bt)"
    define orole where "orole = (if role = ''player1'' then ''player2'' else ''player1'')"
    have eq: "process_battle_action k p a now s =
       (if current_turn bt \<noteq> role then s1
        else if opp \<notin> clients s1 then end_battle (Some bid) (Some p) s1
        else send opp (battle_action bid a orole)
               (s1\<lparr> battles := AList.update bid (bt\<lparr> current_turn := orole \<rparr>) (battles s1) \<rparr>))"
      by (simp only: process_battle_action_def \<open>k = Some bid\<close> Some option.case Let_def
          bt_def s1_def role_def opp_def orole_def)
    have 1: "adds_no (is_start_for aid) s s1" by (rule adds_no_same) (simp add: s1_def)
    have 2: "adds_no (is_start_for aid) s (end_battle (Some bid) (Some p) s1)"
      by (rule adds_no_trans[OF 1 quiet_end_battle])
    have 3: "adds_no (is_start_for aid) s (send opp (battle_action bid a orole)
               (s1\<lparr> battles := AList.update bid (bt\<lparr> current_turn := orole \<rparr>) (battles s1) \<rparr>))"
      by (rule adds_no_send_after) (simp_all add: adds_no_def s1_def is_start_for_type)
    from 1 2 3 show ?thesis unfolding eq by simp
  qed
qed

lemma adds_no_field:
  "adds_no Q s t \<Longrightarrow> outbox t' = outbox t \<Longrightarrow> adds_no Q s t'"
  by (simp add: adds_no_def)

lemma quiet_send_members: "\<not> Q m \<Longrightarrow> adds_no Q s (send_members ms m s)"
  by (rule adds_no_map[where m = m and cs = "filter (\<lambda>c. c \<in> clients s) ms"]) simp_all

lemma quiet_broadcast_adventure_update:
  "adds_no (is_start_for aid) s (broadcast_adventure_update a now s)"
  by (simp add: broadcast_adventure_update_def quiet_send_members is_start_for_type split: option.splits)

lemma quiet_fold_cond_send:
  "\<not> Q msg \<Longrightarrow> adds_no Q s (fold (\<lambda>m s'. if P m s' then send m msg s' else s') ms s)"
proof (induction ms arbitrary: s)
  case Nil
  then show ?case by simp
next
  case (Cons m ms)
  have "adds_no Q s (if P m s then send m msg s else s)"
    using Cons.prems by (simp add: adds_no_send)
  from adds_no_trans[OF this Cons.IH[OF Cons.prems]] show ?case by simp
qed

lemma quiet_remove_from_adventure:
  "adds_no (is_start_for aid) s (snd (remove_from_adventure k p now s))"
proof -
  have *: "adds_no (is_start_for aid) s (broadcast_adventure_update a now (s\<lparr>adventure_parties := al\<rparr>))" for a al
    using quiet_broadcast_adventure_update[of aid "s\<lparr>adventure_parties := al\<rparr>" a now]
    by (simp add: adds_no_def)
  have **: "adds_no (is_start_for aid) s (s\<lparr>adventure_parties := al\<rparr>)" for al
    by (simp add: adds_no_def)
  show ?thesis
    by (simp add: remove_from_adventure_def Let_def * ** split: option.splits sum.splits)
qed

lemma quiet_process_adventure_update:
  "adds_no (is_start_for aid) s (process_adventure_update k p d now s)"
proof -
  have *: "adds_no (is_start_for aid) s
     (fold (\<lambda>m s'. if m \<noteq> p \<and> m \<in> clients s' then send m (adventure_update a p d now) s' else s')
        ms (s\<lparr>adventure_parties := al\<rparr>))" for a ms al
    using quiet_fold_cond_send[of "is_start_for aid" "adventure_update a p d now"
        "s\<lparr>adventure_parties := al\<rparr>" "\<lambda>m s'. m \<noteq> p \<and> m \<in> clients s'" ms]
    by (simp add: adds_no_def is_start_for_type)
  show ?thesis
    by (simp add: process_adventure_update_def Let_def * split: option.splits)
qed

lemma quiet_join_adventure_party:
  assumes "\<forall>p. map_of (adventure_parties s) aid = Some p \<longrightarrow> state p \<noteq> ''waiting''"
  shows "adds_no (is_start_for aid) s (snd (join_adventure_party k pid now s))"
proof (cases "\<exists>a p. k = JStr a \<and> map_of (adventure_parties s) a = Some p
    \<and> length (members p) < 4 \<and> state p = ''waiting''")
  case True
  then obtain a p where k: "k = JStr a" and p: "map_of (adventure_parties s) a = Some p"
    "length (members p) < 4" "state p = ''waiting''" by blast
  with assms have ne: "a \<noteq> aid" by auto
  show ?thesis
    unfolding k join_adventure_party_eq[OF p] adds_no_def
    using ne by (auto simp: is_start_for_type)
next
  case False
  then have "snd (join_adventure_party k pid now s) = s"
    by (auto simp: join_adventure_party_def split: json.splits option.splits)
  then show ?thesis by simp
qed

lemma quiet_handle_join_lobby: "adds_no (is_start_for aid) s (handle_join_lobby pid d now s)"
proof -
  have *: "adds_no (is_start_for aid) s (add_to_lobby pid now (upd_handler p f s))" for p f
    using quiet_add_to_lobby[of aid "upd_handler p f s" pid now] by (simp add: adds_no_def)
  have **: "adds_no (is_start_for aid) s (add_to_lobby pid now (upd_handler p f (upd_handler p' f' s)))" for p f p' f'
    using quiet_add_to_lobby[of aid "upd_handler p f (upd_handler p' f' s)" pid now] by (simp add: adds_no_def)
  show ?thesis
    by (auto simp: handle_join_lobby_def Let_def is_start_for_def dict_get_def split: option.splits
        intro!: adds_no_send_after adds_no_upd_after * **)
qed

lemma quiet_handle_leave_lobby: "adds_no (is_start_for aid) s (handle_leave_lobby pid now s)"
  by (auto simp: handle_leave_lobby_def is_start_for_def dict_get_def
      intro!: adds_no_send_after adds_no_upd_after quiet_remove_from_lobby)

lemma quiet_handle_battle_action: "adds_no (is_start_for aid) s (handle_battle_action pid d now s)"
  by (simp add: handle_battle_action_def quiet_process_battle_action)

lemma quiet_handle_create_adventure:
  "adds_no (is_start_for aid) s (handle_create_adventure pid d uuid now s)"
proof -
  have "adds_no (is_start_for aid) s
     (create_adventure_party uuid pid now (upd_handler pid (\<lambda>c. c\<lparr>creature := dict_get d ''creature'' (JDict [])\<rparr>) s))"
    by (rule adds_no_same) simp
  then show ?thesis
    by (auto simp: handle_create_adventure_def Let_def is_start_for_def dict_get_def
      intro!: adds_no_send_after adds_no_upd_after)
qed

lemma quiet_handle_join_adventure:
  assumes "\<forall>p. map_of (adventure_parties s) aid = Some p \<longrightarrow> state p \<noteq> ''waiting''"
  shows "adds_no (is_start_for aid) s (snd (handle_join_adventure pid d now s))"
proof -
  let ?s1 = "upd_handler pid (\<lambda>c. c\<lparr>creature := dict_get d ''creature'' (JDict [])\<rparr>) s"
  let ?k = "dict_get d ''party_id'' (JStr [])"
  have "adds_no (is_start_for aid) ?s1 (snd (join_adventure_party ?k pid now ?s1))"
    by (rule quiet_join_adventure_party) (use assms in simp)
  then have j: "adds_no (is_start_for aid) s (snd (join_adventure_party ?k pid now ?s1))"
    by (simp add: adds_no_def)
  show ?thesis
    using j
    by (auto simp: handle_join_adventure_def Let_def case_prod_beta is_start_for_def dict_get_def
        join_failed_def split: sum.splits intro!: adds_no_send_after adds_no_upd_after)
qed

lemma quiet_handle_adventure_update:
  "adds_no (is_start_for aid) s (handle_adventure_update pid d now s)"
  by (simp add: handle_adventure_update_def quiet_process_adventure_update)

lemma quiet_handle_get_adventure_parties:
  "adds_no (is_start_for aid) s (snd (handle_get_adventure_parties pid s))"
  by (auto simp: handle_get_adventure_parties_def is_start_for_def dict_get_def split: sum.splits
      intro!: adds_no_send)

lemma quiet_clean_up: "adds_no (is_start_for aid) s (snd (clean_up pid now s))"
proof -
  define s1 where "s1 = (if in_lobby (handlers s pid) then remove_from_lobby pid now s else s)"
  define s2 where "s2 = (if in_battle (handlers s1 pid)
                   then end_battle (battle_id (handlers s1 pid)) (Some pid) s1 else s1)"
  define s3 where "s3 = (if in_adventure (handlers s2 pid)
                   then snd (remove_from_adventure (adventure_id (handlers s2 pid)) pid now s2) else s2)"
  have 1: "adds_no (is_start_for aid) s s1" by (simp add: s1_def quiet_remove_from_lobby)
  have "adds_no (is_start_for aid) s1 s2" by (simp add: s2_def quiet_end_battle)
  with 1 have 2: "adds_no (is_start_for aid) s s2" by (rule adds_no_trans)
  have "adds_no (is_start_for aid) s2 s3" by (simp add: s3_def quiet_remove_from_adventure)
  with 2 have 3: "adds_no (is_start_for aid) s s3" by (rule adds_no_trans)
  have "snd (clean_up pid now s) = s3
      \<or> snd (clean_up pid now s) = upd_handler pid (\<lambda>c. c\<lparr> running := False \<rparr>) s3"
    using clean_up_snd[of pid now s] unfolding s1_def s2_def s3_def .
  then show ?thesis
    using 3 adds_no_upd_after[OF 3] by auto
qed

lemma step_no_second_start:
  assumes "\<forall>p. map_of (adventure_parties s) aid = Some p \<longrightarrow> state p \<noteq> ''waiting''"
  shows "adds_no (is_start_for aid) s (step e s)"
proof (cases e)
  case (Accept pid)
  then show ?thesis by (simp add: adds_no_same)
next
  case (Frame pid now uuid data)
  have "adds_no (is_start_for aid) s (snd (dispatch pid now uuid data s))"
    by (cases rule: dispatch_cases[of pid now uuid data s])
       (simp_all add: quiet_handle_join_lobby quiet_handle_leave_lobby quiet_handle_battle_action
          quiet_handle_create_adventure quiet_handle_join_adventure[OF assms]
          quiet_handle_adventure_update quiet_handle_get_adventure_parties)
  then show ?thesis by (simp add: Frame)
next
  case (Match bid now)
  then show ?thesis by (simp add: quiet_match_players)
next
  case (Disconnect pid now)
  then show ?thesis by (simp add: quiet_clean_up)
qed

lemma same_parties_keep_active:
  "adventure_parties s' = adventure_parties s \<Longrightarrow>
   map_of (adventure_parties s) aid = Some p \<Longrightarrow> state p = ''active'' \<Longrightarrow>
   map_of (adventure_parties s') aid = Some p' \<Longrightarrow> state p' = ''active''"
  by simp

lemma join_keeps_active:
  assumes "map_of (adventure_parties s) aid = Some p" "state p = ''active''"
    "map_of (adventure_parties (snd (join_adventure_party k pid now s))) aid = Some p'"
  shows "state p' = ''active''"
  using join_adventure_party_parties[of k pid now s] assms
  by (auto simp: AList.update_conv' split: if_splits)

lemma remove_keeps_state:
  assumes "map_of (adventure_parties (snd (remove_from_adventure k pid now s))) aid = Some p'"
  shows "\<exists>p. map_of (adventure_parties s) aid = Some p \<and> state p' = state p"
  using assms
  by (auto simp: remove_from_adventure_def Let_def AList.update_conv' AList.delete_conv'
      split: option.splits sum.splits if_splits)

lemma process_update_keeps_state:
  assumes "map_of (adventure_parties (process_adventure_update k pid d now s)) aid = Some p'"
  shows "\<exists>p. map_of (adventure_parties s) aid = Some p \<and> state p' = state p"
  using process_adventure_update_parties[of k pid d now s] assms
  by (auto simp: AList.update_conv' split: if_splits)

lemma handle_create_adventure_parties:
  "adventure_parties (handle_create_adventure pid d uuid now s) =
     AList.update uuid
       \<lparr> party_ident = uuid, host = pid, members = [pid],
         creatures = [dict_get d ''creature'' (JDict [])],
         usernames = [username (handlers s pid)],
         state = ''waiting'', creation_time = now, party_last_activity = now \<rparr>
       (adventure_parties s)"
  by (simp add: handle_create_adventure_def Let_def create_adventure_party_def)

lemma handle_join_adventure_parties:
  "adventure_parties (snd (handle_join_adventure pid d now s)) =
   adventure_parties (snd (join_adventure_party (dict_get d ''party_id'' (JStr [])) pid now
      (upd_handler pid (\<lambda>c. c\<lparr>creature := dict_get d ''creature'' (JDict [])\<rparr>) s)))"
  by (simp add: handle_join_adventure_def Let_def case_prod_beta split: sum.splits)

lemma handle_adventure_update_parties:
  "adventure_parties (handle_adventure_update pid d now s) =
     (if in_adventure (handlers s pid)
      then adventure_parties (process_adventure_update (adventure_id (handlers s pid)) pid
             (dict_get d ''data'' (JDict [])) now s)
      else adventure_parties s)"
  by (simp add: handle_adventure_update_def)

lemma clean_up_parties:
  "adventure_parties (snd (clean_up pid now s)) = adventure_parties s
   \<or> (\<exists>k t. adventure_parties t = adventure_parties s
        \<and> adventure_parties (snd (clean_up pid now s)) =
            adventure_parties (snd (remove_from_adventure k pid now t)))"
proof -
  define s1 where "s1 = (if in_lobby (handlers s pid) then remove_from_lobby pid now s else s)"
  define s2 where "s2 = (if in_battle (handlers s1 pid)
                   then end_battle (battle_id (handlers s1 pid)) (Some pid) s1 else s1)"
  define s3 where "s3 = (if in_adventure (handlers s2 pid)
                   then snd (remove_from_adventure (adventure_id (handlers s2 pid)) pid now s2) else s2)"
  have c: "snd (clean_up pid now s) = s3
      \<or> snd (clean_up pid now s) = upd_handler pid (\<lambda>c. c\<lparr> running := False \<rparr>) s3"
    using clean_up_snd[of pid now s] unfolding s1_def s2_def s3_def .
  have 2: "adventure_parties s2 = adventure_parties s" by (simp add: s2_def s1_def)
  have "adventure_parties s3 = adventure_parties s
     \<or> adventure_parties s3 = adventure_parties (snd (remove_from_adventure (adventure_id (handlers s2 pid)) pid now s2))"
    by (simp add: s3_def 2)
  with c 2 show ?thesis by (elim disjE) (auto intro: exI[of _ s2])
qed

lemma step_keeps_active:
  assumes p: "map_of (adventure_parties s) aid = Some p" "state p = ''active''"
    and e: "enabled e s"
    and p': "map_of (adventure_parties (step e s)) aid = Some p'"
  shows "state p' = ''active''"
proof (cases e)
  case (Accept pid)
  then show ?thesis using p p' by simp
next
  case (Match bid now)
  then show ?thesis using p p' by simp
next
  case (Disconnect pid now)
  from clean_up_parties[of pid now s] show ?thesis
  proof (elim disjE exE conjE)
    assume "adventure_parties (snd (clean_up pid now s)) = adventure_parties s"
    then show ?thesis using p p' Disconnect by simp
  next
    fix k t
    assume t: "adventure_parties t = adventure_parties s"
      and "adventure_parties (snd (clean_up pid now s)) =
            adventure_parties (snd (remove_from_adventure k pid now t))"
    with p' Disconnect
    have "map_of (adventure_parties (snd (remove_from_adventure k pid now t))) aid = Some p'" by simp
    from remove_keeps_state[OF this] show ?thesis using p t by auto
  qed
next
  case (Frame pid now uuid data)
  from e Frame have fresh: "uuid \<notin> fst ` set (adventure_parties s)" by simp
  from p(1) have "aid \<in> fst ` set (adventure_parties s)"
    by (metis domI dom_map_of_conv_image_fst)
  with fresh have ne: "uuid \<noteq> aid" by auto
  from p' Frame have q: "map_of (adventure_parties (snd (dispatch pid now uuid data s))) aid = Some p'"
    by simp
  show ?thesis
  proof (cases rule: dispatch_cases[of pid now uuid data s])
    case ignored
    then show ?thesis using p q by simp
  next
    case (join_lobby d)
    then show ?thesis using p q by simp
  next
    case leave_lobby
    then show ?thesis using p q by simp
  next
    case (battle_action d)
    then show ?thesis using p q by simp
  next
    case (create_adventure d)
    then show ?thesis using p q ne by (simp add: handle_create_adventure_parties AList.update_conv')
  next
    case (join_adventure d)
    with q have "map_of (adventure_parties (snd (join_adventure_party (dict_get d ''party_id'' (JStr [])) pid now
      (upd_handler pid (\<lambda>c. c\<lparr>creature := dict_get d ''creature'' (JDict [])\<rparr>) s)))) aid = Some p'"
      by (simp add: handle_join_adventure_parties)
    from join_keeps_active[OF _ p(2) this] p(1) show ?thesis by simp
  next
    case (adventure_update d)
    show ?thesis
    proof (cases "in_adventure (handlers s pid)")
      case True
      with q adventure_update
      have "map_of (adventure_parties (process_adventure_update (adventure_id (handlers s pid)) pid
             (dict_get d ''data'' (JDict [])) now s)) aid = Some p'"
        by (simp add: handle_adventure_update_parties)
      from process_update_keeps_state[OF this] p show ?thesis by auto
    next
      case False
      then show ?thesis using p q adventure_update by (simp add: handle_adventure_update_parties)
    qed
  next
    case get_adventure_parties
    then show ?thesis using p q by simp
  qed
qed

lemma second_member_joins:
  assumes p: "map_of (adventure_parties s) aid = Some p"
    and w: "state p = ''waiting''" and h: "members p = [h]" "h \<in> clients s"
    and j: "j \<in> clients s" "j \<noteq> h"
  shows "join_adventure_party (JStr aid) j now s =
           (Inr True, snd (join_adventure_party (JStr aid) j now s))
      \<and> map_of (adventure_parties (snd (join_adventure_party (JStr aid) j now s))) aid
          = Some (joined p j (handlers s j) now)
      \<and> sent_during s (snd (join_adventure_party (JStr aid) j now s)) =
          map (\<lambda>m. (m, party_update aid
                          (p\<lparr> members := members p @ [j],
                              creatures := creatures p @ [creature (handlers s j)],
                              usernames := usernames p @ [username (handlers s j)],
                              party_last_activity := now \<rparr>) now)) [h, j]
          @ map (\<lambda>m. (m, party_start aid (joined p j (handlers s j) now) now)) [h, j]"
proof -
  have lt: "length (members p) < 4" using h by simp
  note eq = join_adventure_party_eq[OF p lt w, of j now]
  have sent: "sent_during s (snd (join_adventure_party (JStr aid) j now s)) =
      map (\<lambda>m. (m, party_update aid
                          (p\<lparr> members := members p @ [j],
                              creatures := creatures p @ [creature (handlers s j)],
                              usernames := usernames p @ [username (handlers s j)],
                              party_last_activity := now \<rparr>) now)) [h, j]
      @ map (\<lambda>m. (m, party_start aid (joined p j (handlers s j) now) now)) [h, j]"
    using h j by (simp add: eq sent_during_def)
  with h show ?thesis by (simp add: eq AList.update_conv')
qed

lemma later_joiner_refused:
  assumes p: "map_of (adventure_parties s) aid = Some p" and a: "state p = ''active''"
  shows "join_adventure_party (JStr aid) k now s = (Inr False, s)
      \<and> (dict_get d ''party_id'' (JStr []) = JStr aid \<longrightarrow>
           sent_during s (snd (handle_join_adventure k d now s)) = [(k, join_failed (JStr aid))])"
proof -
  have r: "join_refused s aid" using p a by (simp add: join_refused_def)
  let ?s1 = "upd_handler k (\<lambda>c. c\<lparr> creature := dict_get d ''creature'' (JDict []) \<rparr>) s"
  have "join_refused ?s1 aid" using r by (simp add: join_refused_def)
  then have "join_adventure_party (JStr aid) k now ?s1 = (Inr False, ?s1)"
    by (rule join_adventure_party_refused)
  then have "dict_get d ''party_id'' (JStr []) = JStr aid \<longrightarrow>
           sent_during s (snd (handle_join_adventure k d now s)) = [(k, join_failed (JStr aid))]"
    by (simp add: handle_join_adventure_def Let_def sent_during_def)
  with join_adventure_party_refused[OF r] show ?thesis by simp
qed

text \<open>
  Claim C4, as the code has it. Take a party that waits with one member \<open>h\<close>, a registered
  handler. When a registered session \<open>j\<close> other than \<open>h\<close> joins and the call of
  \<open>join_adventure_party\<close> runs from its beginning to its end with no other call in
  between, the join succeeds, the party is active with the members \<open>h\<close> and \<open>j\<close>, and
  each of the two is handed exactly one \<open>ADVENTURE_START\<close>, which carries the two
  members. Take a party that is active. A join that begins now is refused whoever asks: the
  state is returned as it is and the joiner is handed one \<open>ADVENTURE_JOIN_FAILED\<close> and
  nothing else; no handler call, matchmaking pass or clean-up that begins now and runs to
  its end adds an \<open>ADVENTURE_START\<close> for this party to the outbox; and after it the party,
  if it still exists, is active.
\<close>

theorem party_activation:
  assumes "map_of (adventure_parties s) aid = Some p"
  shows "(state p = ''waiting'' \<and> members p = [h] \<and> h \<in> clients s \<and> j \<in> clients s \<and> j \<noteq> h \<longrightarrow>
      fst (join_adventure_party (JStr aid) j now s) = Inr True
      \<and> map_of (adventure_parties (snd (join_adventure_party (JStr aid) j now s))) aid
          = Some (p\<lparr> members := [h, j],
                     creatures := creatures p @ [creature (handlers s j)],
                     usernames := usernames p @ [username (handlers s j)],
                     party_last_activity := now,
                     state := ''active'' \<rparr>)
      \<and> envelopes_to h ''ADVENTURE_START'' (sent_during s (snd (join_adventure_party (JStr aid) j now s)))
          = [JDict [(''type'', JStr ''ADVENTURE_START''),
                    (''adventure_id'', JStr aid),
                    (''members'', JList [JStr h, JStr j]),
                    (''creatures'', JList (creatures p @ [creature (handlers s j)])),
                    (''usernames'', JList (usernames p @ [username (handlers s j)])),
                    (''host'', JStr (host p)),
                    (''timestamp'', JFloat now)]]
      \<and> envelopes_to j ''ADVENTURE_START'' (sent_during s (snd (join_adventure_party (JStr aid) j now s)))
          = [JDict [(''type'', JStr ''ADVENTURE_START''),
                    (''adventure_id'', JStr aid),
                    (''members'', JList [JStr h, JStr j]),
                    (''creatures'', JList (creatures p @ [creature (handlers s j)])),
                    (''usernames'', JList (usernames p @ [username (handlers s j)])),
                    (''host'', JStr (host p)),
                    (''timestamp'', JFloat now)]])
   \<and> (state p = ''active'' \<longrightarrow>
        join_adventure_party (JStr aid) k now s = (Inr False, s)
        \<and> (dict_get d ''party_id'' (JStr []) = JStr aid \<longrightarrow>
             sent_during s (snd (handle_join_adventure k d now s))
               = [(k, JDict [(''type'', JStr ''ADVENTURE_JOIN_FAILED''),
                             (''adventure_id'', JStr aid),
                             (''message'', JStr ''Failed to join adventure party'')])])
        \<and> adds_no (is_start_for aid) s (step e s)
        \<and> (enabled e s \<longrightarrow>
             (\<forall>p'. map_of (adventure_parties (step e s)) aid = Some p' \<longrightarrow> state p' = ''active'')))"
proof (intro conjI impI)
  assume a: "state p = ''active''"
  from later_joiner_refused[OF assms a, of k now d]
  show "join_adventure_party (JStr aid) k now s = (Inr False, s)"
    and "dict_get d ''party_id'' (JStr []) = JStr aid \<Longrightarrow>
             sent_during s (snd (handle_join_adventure k d now s))
               = [(k, JDict [(''type'', JStr ''ADVENTURE_JOIN_FAILED''),
                             (''adventure_id'', JStr aid),
                             (''message'', JStr ''Failed to join adventure party'')])]"
    by (simp_all add: join_failed_def)
  show "adds_no (is_start_for aid) s (step e s)"
    by (rule step_no_second_start) (use assms a in simp)
  show "\<forall>p'. map_of (adventure_parties (step e s)) aid = Some p' \<longrightarrow> state p' = ''active''"
    if "enabled e s"
    using step_keeps_active[OF assms a that] by blast
next
  assume "state p = ''waiting'' \<and> members p = [h] \<and> h \<in> clients s \<and> j \<in> clients s \<and> j \<noteq> h"
  then have w: "state p = ''waiting''" and h: "members p = [h]" "h \<in> clients s"
    and j: "j \<in> clients s" "j \<noteq> h" by simp_all
  let ?s' = "snd (join_adventure_party (JStr aid) j now s)"
  let ?start = "JDict [(''type'', JStr ''ADVENTURE_START''),
                    (''adventure_id'', JStr aid),
                    (''members'', JList [JStr h, JStr j]),
                    (''creatures'', JList (creatures p @ [creature (handlers s j)])),
                    (''usernames'', JList (usernames p @ [username (handlers s j)])),
                    (''host'', JStr (host p)),
                    (''timestamp'', JFloat now)]"
  from second_member_joins[OF assms w h j, of now]
  have r: "join_adventure_party (JStr aid) j now s = (Inr True, ?s')"
    and q: "map_of (adventure_parties ?s') aid = Some (joined p j (handlers s j) now)"
    and sent: "sent_during s ?s' =
          map (\<lambda>m. (m, party_update aid
                          (p\<lparr> members := members p @ [j],
                              creatures := creatures p @ [creature (handlers s j)],
                              usernames := usernames p @ [username (handlers s j)],
                              party_last_activity := now \<rparr>) now)) [h, j]
          @ map (\<lambda>m. (m, party_start aid (joined p j (handlers s j) now) now)) [h, j]"
    by blast+
  have jd: "joined p j (handlers s j) now =
      p\<lparr> members := [h, j],
         creatures := creatures p @ [creature (handlers s j)],
         usernames := usernames p @ [username (handlers s j)],
         party_last_activity := now,
         state := ''active'' \<rparr>"
    by (simp add: joined_def Let_def h)
  have st: "party_start aid (joined p j (handlers s j) now) now = ?start"
    by (simp add: jd party_start_def)
  show "fst (join_adventure_party (JStr aid) j now s) = Inr True"
    using arg_cong[OF r, of fst] by simp
  from q show "map_of (adventure_parties ?s') aid
          = Some (p\<lparr> members := [h, j],
                     creatures := creatures p @ [creature (handlers s j)],
                     usernames := usernames p @ [username (handlers s j)],
                     party_last_activity := now,
                     state := ''active'' \<rparr>)"
    by (simp add: jd)
  have "envelopes_to h ''ADVENTURE_START'' (sent_during s ?s')
      = [party_start aid (joined p j (handlers s j) now) now]"
    unfolding sent using j by (simp add: envelopes_to_Cons)
  then show "envelopes_to h ''ADVENTURE_START'' (sent_during s ?s') = [?start]"
    by (simp only: st)
  have "envelopes_to j ''ADVENTURE_START'' (sent_during s ?s')
      = [party_start aid (joined p j (handlers s j) now) now]"
    unfolding sent using j by (simp add: envelopes_to_Cons)
  then show "envelopes_to j ''ADVENTURE_START'' (sent_during s ?s') = [?start]"
    by (simp only: st)
qed

theorem party_activation_witness:
  "fst (join_adventure_party (JStr ''a'') ''j'' 2 party_waiting) = Inr True
   \<and> map_option state (map_of (adventure_parties (snd (join_adventure_party (JStr ''a'') ''j'' 2 party_waiting))) ''a'')
       = Some ''active''
   \<and> envelopes_to ''h'' ''ADVENTURE_START''
        (sent_during party_waiting (snd (join_adventure_party (JStr ''a'') ''j'' 2 party_waiting)))
       = [JDict [(''type'', JStr ''ADVENTURE_START''),
                 (''adventure_id'', JStr ''a''),
                 (''members'', JList [JStr ''h'', JStr ''j'']),
                 (''creatures'', JList [JStr ''Skeleton'', JNull]),
                 (''usernames'', JList [JStr ''Player_h'', JStr ''Player_j'']),
                 (''host'', JStr ''h''),
                 (''timestamp'', JFloat 2)]]
   \<and> join_adventure_party (JStr ''a'') ''k'' 5 party_active = (Inr False, party_active)
   \<and> sent_during party_active (snd (handle_join_adventure ''k'' [(''party_id'', JStr ''a'')] 5 party_active))
       = [(''k'', JDict [(''type'', JStr ''ADVENTURE_JOIN_FAILED''),
                        (''adventure_id'', JStr ''a''),
                        (''message'', JStr ''Failed to join adventure party'')])]"
proof -
  have 1: "state \<lparr> party_ident = ''a'', host = ''h'', members = [''h''],
            creatures = [JStr ''Skeleton''],
            usernames = [JStr ''Player_h''],
            state = ''waiting'', creation_time = 1, party_last_activity = 1 \<rparr> = ''waiting''
      \<and> ''h'' \<in> clients party_waiting
      \<and> ''j'' \<in> clients party_waiting
      \<and> creature (handlers party_waiting ''j'') = JNull
      \<and> username (handlers party_waiting ''j'') = JStr ''Player_j''"
    by code_simp
  have 2: "state \<lparr> party_ident = ''a'', host = ''h'', members = [''h'', ''j''],
            creatures = [JStr ''Skeleton'', JStr ''Knight''],
            usernames = [JStr ''Player_h'', JStr ''Player_j''],
            state = ''active'', creation_time = 1, party_last_activity = 2 \<rparr> = ''active''" by simp
  have 3: "dict_get [(''party_id'', JStr ''a'')] ''party_id'' (JStr []) = JStr ''a''"
    by (simp add: dict_get_def)
  show ?thesis
    using party_activation[OF party_waiting_a, where j = "''j''" and h = "''h''" and now = 2]
      party_activation[OF party_active_a, where k = "''k''" and now = 5
        and d = "[(''party_id'', JStr ''a'')]"] 1 2 3
    by simp
qed

text \<open>
  The claim as stated fails in three ways. The third joiner: \<open>k\<close> joins the active party
  of \<open>h\<close> and \<open>j\<close> and is handed \<open>ADVENTURE_JOIN_FAILED\<close> and no
  \<open>ADVENTURE_PARTY_UPDATE\<close>; the party keeps its two members. A host that joins its own
  waiting party: \<open>h\<close> is then listed twice and handed \<open>ADVENTURE_START\<close> twice. And two
  joins that interleave, which the server, with a thread for each connection and no lock,
  allows: the thread of \<open>j\<close> is suspended in the sends of \<open>broadcast_adventure_update\<close>,
  after it has appended \<open>j\<close> and before it sets the state; the thread of \<open>k\<close> finds the
  party waiting and joins as a third member, with no \<open>ADVENTURE_JOIN_FAILED\<close>; and each
  thread then broadcasts \<open>ADVENTURE_START\<close>, so \<open>h\<close> is handed it twice.
\<close>

theorem party_activation_counterexample:
  "map_option members (map_of (adventure_parties party_active) ''a'') = Some [''h'', ''j'']
   \<and> enabled (Frame ''k'' 5 [] (join_adventure_msg ''a'')) party_active
   \<and> sent_during party_active (step (Frame ''k'' 5 [] (join_adventure_msg ''a'')) party_active)
       = [(''k'', JDict [(''type'', JStr ''ADVENTURE_JOIN_FAILED''), (''adventure_id'', JStr ''a''),
                        (''message'', JStr ''Failed to join adventure party'')])]
   \<and> envelopes_to ''k'' ''ADVENTURE_PARTY_UPDATE''
        (sent_during party_active (step (Frame ''k'' 5 [] (join_adventure_msg ''a'')) party_active)) = []
   \<and> map_option members
        (map_of (adventure_parties (step (Frame ''k'' 5 [] (join_adventure_msg ''a'')) party_active)) ''a'')
       = Some [''h'', ''j'']
   \<and> enabled (Frame ''h'' 2 [] (join_adventure_msg ''a'')) party_waiting
   \<and> map_option members
        (map_of (adventure_parties (step (Frame ''h'' 2 [] (join_adventure_msg ''a'')) party_waiting)) ''a'')
       = Some [''h'', ''h'']
   \<and> length (envelopes_to ''h'' ''ADVENTURE_START''
        (sent_during party_waiting (step (Frame ''h'' 2 [] (join_adventure_msg ''a'')) party_waiting))) = 2
   \<and> fst (join_adventure_party_begin (JStr ''a'') ''k'' 3
            (snd (join_adventure_party_begin (JStr ''a'') ''j'' 2 party_waiting))) = Inr True
   \<and> map_option members (map_of (adventure_parties interleaved_joins) ''a'')
        = Some [''h'', ''j'', ''k'']
   \<and> length (envelopes_to ''h'' ''ADVENTURE_START'' (sent_during party_waiting interleaved_joins)) = 2
   \<and> envelopes_to ''k'' ''ADVENTURE_JOIN_FAILED'' (sent_during party_waiting interleaved_joins) = []"
  by code_simp

subsection \<open>Frames on the wire\<close>

lemma split_nl_none: "CHR 0x0A \<notin> set t \<Longrightarrow> split_nl t = None"
  by (induction t) auto

lemma split_nl_frame: "CHR 0x0A \<notin> set t \<Longrightarrow> split_nl (t @ CHR 0x0A # rest) = Some (t, rest)"
  by (induction t) auto

lemma run_frames_done: "split_nl b = None \<Longrightarrow> run_frames loads pid env i b s = ([], b, s)"
  by (simp add: run_frames.simps)

lemma receive_loop_frames_done: "split_nl b = None \<Longrightarrow> receive_loop_frames loads cbs b c = ([], None, b, c)"
  by (simp add: receive_loop_frames.simps)

lemma run_frames_frame:
  "CHR 0x0A \<notin> set t \<Longrightarrow>
   run_frames loads pid env i (t @ CHR 0x0A # rest) s =
     (case process_message loads pid (fst (env i)) (snd (env i)) t s of
        (l1, s1) \<Rightarrow> (case run_frames loads pid env (Suc i) rest s1 of
                       (l2, b, s2) \<Rightarrow> (l1 @ l2, b, s2)))"
  by (subst run_frames.simps) (simp add: split_nl_frame)

lemma receive_loop_frames_single:
  assumes "CHR 0x0A \<notin> set t" "loads t = Inr (JDict d)"
  shows "\<exists>l e c'. receive_loop_frames loads cbs (t @ [CHR 0x0A]) c = (l, e, [], c')
      \<and> receive_queue c' = receive_queue c @ [JDict d]
      \<and> connected c' = connected c
      \<and> (e \<noteq> Some OSError) =
          (case callback_for cbs (dict_get d ''type'' (JStr [])) of
             None \<Rightarrow> True
           | Some cb \<Rightarrow> cb (JDict d) \<noteq> Some OSError)"
proof (cases "unhashable (dict_get d ''type'' (JStr []))")
  case True
  then have "callback_for cbs (dict_get d ''type'' (JStr [])) = None"
    by (cases "dict_get d ''type'' (JStr [])") (simp_all add: callback_for_def)
  with True assms show ?thesis
    by (subst receive_loop_frames.simps) (simp add: split_nl_frame)
next
  case False
  with assms show ?thesis
    by (subst receive_loop_frames.simps)
       (auto simp: split_nl_frame receive_loop_frames_done split: option.splits)
qed

text \<open>
  Claim C8. Let the dict \<open>d\<close> be serialisable: \<open>json.loads\<close> gives it back from what
  \<open>json.dumps\<close> made of it, the text has no newline (as JSON text has not), and the bytes
  of the frame decode to the frame. Then \<open>send\<close> queues the JSON text; \<open>_send_loop\<close>
  writes that text with exactly one newline appended, encoded; and a reader with an empty
  buffer that receives these bytes, the client's \<open>_receive_loop\<close> or the server's
  \<open>run\<close>, gets the same dict (the client puts it on its receive queue, the server
  dispatches it) and is left with an empty buffer. The client's thread stays in its loop,
  with \<open>connected\<close> as it was, unless the callback registered for the message raised a
  \<open>socket.error\<close>.
\<close>

theorem frame_round_trip:
  assumes json: "loads (dumps (JDict d)) = Inr (JDict d)"
    and no_nl: "CHR 0x0A \<notin> set (dumps (JDict d))"
    and utf8: "dec (enc (dumps (JDict d) @ [CHR 0x0A])) = Some (dumps (JDict d) @ [CHR 0x0A])"
      "dec [] = Some []"
    and conn: "connected c" "send_queue c = []"
  shows "nc_send dumps d c = (True, c\<lparr> send_queue := [dumps (JDict d)] \<rparr>)
     \<and> send_loop_step enc (c\<lparr> send_queue := [dumps (JDict d)] \<rparr>)
         = (enc (dumps (JDict d) @ [CHR 0x0A]), c)
     \<and> (\<exists>l c''. receive_loop_step dec loads cbs (Data (enc (dumps (JDict d) @ [CHR 0x0A]))) [] c'
                   = (case callback_for cbs (dict_get d ''type'' (JStr [])) of
                        None \<Rightarrow> True
                      | Some cb \<Rightarrow> cb (JDict d) \<noteq> Some OSError,
                      l, [], c'')
               \<and> receive_queue c'' = receive_queue c' @ [JDict d]
               \<and> connected c'' =
                   ((case callback_for cbs (dict_get d ''type'' (JStr [])) of
                       None \<Rightarrow> True
                     | Some cb \<Rightarrow> cb (JDict d) \<noteq> Some OSError)
                    \<and> connected c'))
     \<and> run_step dec loads pid env i (Data (enc (dumps (JDict d) @ [CHR 0x0A]))) [] s
         = (case dispatch pid (fst (env i)) (snd (env i)) (JDict d) s of (l, s') \<Rightarrow> Open l [] s')"
proof -
  let ?t = "dumps (JDict d)"
  let ?bs = "enc (?t @ [CHR 0x0A])"
  let ?go = "case callback_for cbs (dict_get d ''type'' (JStr [])) of
               None \<Rightarrow> True
             | Some cb \<Rightarrow> cb (JDict d) \<noteq> Some OSError"
  have ne: "?bs \<noteq> []" using utf8 by auto
  have 1: "nc_send dumps d c = (True, c\<lparr> send_queue := [?t] \<rparr>)"
    using conn by (simp add: nc_send_def)
  have 2: "send_loop_step enc (c\<lparr> send_queue := [?t] \<rparr>) = (?bs, c)"
    using conn by (simp add: send_loop_step_def)
  obtain l e c'' where cf: "receive_loop_frames loads cbs (?t @ [CHR 0x0A]) c' = (l, e, [], c'')"
    and q: "receive_queue c'' = receive_queue c' @ [JDict d]"
    and k: "connected c'' = connected c'"
    and g: "(e \<noteq> Some OSError) = ?go"
    using receive_loop_frames_single[where loads = loads and t = "dumps (JDict d)" and d = d
        and cbs = cbs and c = c', OF no_nl json] by blast
  have 3: "\<exists>l c''. receive_loop_step dec loads cbs (Data ?bs) [] c' = (?go, l, [], c'')
               \<and> receive_queue c'' = receive_queue c' @ [JDict d]
               \<and> connected c'' = (?go \<and> connected c')"
  proof (cases e)
    case None
    with g have go: "?go" by simp
    from None ne utf8 cf have "receive_loop_step dec loads cbs (Data ?bs) [] c' = (True, l, [], c'')"
      by (simp add: receive_loop_step_def)
    with go q k show ?thesis by simp
  next
    case (Some x)
    show ?thesis
    proof (cases "x = OSError")
      case True
      with Some g have go: "\<not> ?go" by simp
      from True Some ne utf8 cf
      have "receive_loop_step dec loads cbs (Data ?bs) [] c'
          = (False, l @ [ClientErrorReceiving OSError, ClientConnectionLost], [],
             c''\<lparr> connected := False \<rparr>)"
        by (simp add: receive_loop_step_def receive_loop_except_def)
      with go q show ?thesis by simp
    next
      case False
      with Some g have go: "?go" by simp
      from False Some ne utf8 cf
      have "\<exists>l'. receive_loop_step dec loads cbs (Data ?bs) [] c' = (True, l', [], c'')"
        by (simp add: receive_loop_step_def receive_loop_except_def)
      with go q k show ?thesis by auto
    qed
  qed
  have 4: "run_step dec loads pid env i (Data ?bs) [] s
         = (case dispatch pid (fst (env i)) (snd (env i)) (JDict d) s of (l, s') \<Rightarrow> Open l [] s')"
    using ne utf8 no_nl json
    by (simp add: run_step_def run_frames_frame run_frames_done process_message_def
        split: prod.splits)
  from 1 2 3 4 show ?thesis by blast
qed

theorem frame_round_trip_witness:
  "type_loads (type_dumps (JDict leave_lobby_dict)) = Inr (JDict leave_lobby_dict)
   \<and> CHR 0x0A \<notin> set (type_dumps (JDict leave_lobby_dict))
   \<and> nc_send type_dumps leave_lobby_dict idle_client
       = (True, idle_client\<lparr> send_queue := [type_dumps (JDict leave_lobby_dict)] \<rparr>)
   \<and> fst (send_loop_step utf8_encode (idle_client\<lparr> send_queue := [type_dumps (JDict leave_lobby_dict)] \<rparr>))
       = utf8_encode leave_lobby_frame
   \<and> (\<exists>l c''. receive_loop_step utf8_decode type_loads (\<lambda>t. None)
                 (Data (utf8_encode leave_lobby_frame)) [] idle_client = (True, l, [], c'')
             \<and> receive_queue c'' = [JDict leave_lobby_dict] \<and> connected c'')
   \<and> run_step utf8_decode type_loads ''p'' (\<lambda>i. (7, [])) 0
        (Data (utf8_encode leave_lobby_frame)) [] two_in_battle
       = Open [Received (JStr ''LEAVE_LOBBY'')] []
           (handle_leave_lobby ''p'' 7 two_in_battle)"
proof -
  have a: "type_loads (type_dumps (JDict leave_lobby_dict)) = Inr (JDict leave_lobby_dict)"
    "CHR 0x0A \<notin> set (type_dumps (JDict leave_lobby_dict))"
    "utf8_decode (utf8_encode (type_dumps (JDict leave_lobby_dict) @ [CHR 0x0A]))
       = Some (type_dumps (JDict leave_lobby_dict) @ [CHR 0x0A])"
    "utf8_decode [] = Some []"
    "connected idle_client" "send_queue idle_client = []"
    by code_simp+
  have b: "type_dumps (JDict leave_lobby_dict) @ [CHR 0x0A] = leave_lobby_frame"
    by code_simp
  have c: "dispatch ''p'' 7 [] (JDict leave_lobby_dict) two_in_battle
      = ([Received (JStr ''LEAVE_LOBBY'')], handle_leave_lobby ''p'' 7 two_in_battle)"
    by (simp add: dispatch_def leave_lobby_dict_def dict_get_def)
  have d: "callback_for (\<lambda>t. None) (dict_get leave_lobby_dict ''type'' (JStr [])) = None"
    "receive_queue idle_client = []"
    by code_simp+
  show ?thesis
    using frame_round_trip[where loads = type_loads and dumps = type_dumps and dec = utf8_decode
        and enc = utf8_encode and d = leave_lobby_dict and c = idle_client and c' = idle_client
        and cbs = "\<lambda>t. None"
        and pid = "''p''" and env = "\<lambda>i. (7, [])" and i = 0 and s = two_in_battle, OF a]
    by (simp add: a b c d)
qed

subsection \<open>A frame that is no JSON\<close>

lemma receive_loop_frames_bad:
  "CHR 0x0A \<notin> set bad \<Longrightarrow> loads bad = Inl JSONDecodeError \<Longrightarrow>
   receive_loop_frames loads cbs (bad @ CHR 0x0A # rest) c =
     (case receive_loop_frames loads cbs rest c of (l, r) \<Rightarrow> (ClientErrorDecodingJSON bad # l, r))"
  by (subst receive_loop_frames.simps) (simp add: split_nl_frame)

lemma run_frames_dropped:
  "CHR 0x0A \<notin> set bad \<Longrightarrow> process_message loads pid (fst (env i)) (snd (env i)) bad s = ([line], s) \<Longrightarrow>
   run_frames loads pid env i (bad @ CHR 0x0A # rest) s =
     (case run_frames loads pid env (Suc i) rest s of
        (l, b, s') \<Rightarrow> (line # l, b, s'))"
  by (simp add: run_frames_frame)

lemma process_message_bad:
  "loads bad = Inl JSONDecodeError \<Longrightarrow> process_message loads pid now uuid bad s = ([ErrorDecodingJSON bad], s)"
  "loads bad = Inl e \<Longrightarrow> e \<noteq> JSONDecodeError \<Longrightarrow> process_message loads pid now uuid bad s = ([ErrorProcessing e], s)"
  "loads bad = Inr v \<Longrightarrow> \<forall>d. v \<noteq> JDict d \<Longrightarrow> process_message loads pid now uuid bad s = ([ErrorProcessing AttributeError], s)"
  by (auto simp: process_message_def dispatch_def split: json.splits)

text \<open>
  Claim C9, as the code has it. A frame is text without a newline, and the chunk that
  brought it has decoded as text. On the server, whatever \<open>json.loads\<close> does with a frame
  that holds no message, the frame is printed and dropped and the loop goes on with the rest
  of the buffer exactly as it would had the buffer begun there (with the next reading of its
  environment): \<open>JSONDecodeError\<close> is printed as a decoding error, any other exception, and
  the \<open>AttributeError\<close> of \<open>.get\<close> on a value that is no dict, as a processing error. The
  thread stays in its loop. On the client the same holds for a frame on which \<open>json.loads\<close>
  raises \<open>JSONDecodeError\<close>: it is printed, nothing is queued, and the later frames are
  handled as if the buffer had begun with them.
\<close>

theorem malformed_frame_dropped:
  assumes "CHR 0x0A \<notin> set bad"
  shows "(loads bad = Inl JSONDecodeError \<longrightarrow>
            run_frames loads pid env i (bad @ CHR 0x0A # rest) s =
              (case run_frames loads pid env (Suc i) rest s of
                 (l, b, s') \<Rightarrow> (ErrorDecodingJSON bad # l, b, s')))
       \<and> (loads bad = Inl e \<and> e \<noteq> JSONDecodeError \<longrightarrow>
            run_frames loads pid env i (bad @ CHR 0x0A # rest) s =
              (case run_frames loads pid env (Suc i) rest s of
                 (l, b, s') \<Rightarrow> (ErrorProcessing e # l, b, s')))
       \<and> (loads bad = Inr v \<and> (\<forall>d. v \<noteq> JDict d) \<longrightarrow>
            run_frames loads pid env i (bad @ CHR 0x0A # rest) s =
              (case run_frames loads pid env (Suc i) rest s of
                 (l, b, s') \<Rightarrow> (ErrorProcessing AttributeError # l, b, s')))
       \<and> (loads bad = Inl JSONDecodeError \<longrightarrow>
            receive_loop_frames loads cbs (bad @ CHR 0x0A # rest) c =
              (case receive_loop_frames loads cbs rest c of
                 (l, r) \<Rightarrow> (ClientErrorDecodingJSON bad # l, r)))
       \<and> (bs \<noteq> [] \<and> dec bs = Some decoded \<and> buffer @ decoded = bad @ CHR 0x0A # rest \<longrightarrow>
            (\<exists>line. run_step dec loads pid env i (Data bs) buffer s =
                      (case run_frames loads pid env (Suc i) rest s of
                         (l, b, s') \<Rightarrow> Open (line # l) b s')
                    \<and> (loads bad = Inl JSONDecodeError \<longrightarrow> line = ErrorDecodingJSON bad))
              \<or> (\<exists>d. loads bad = Inr (JDict d)))
       \<and> (bs \<noteq> [] \<and> dec bs = Some decoded \<and> buffer @ decoded = bad @ CHR 0x0A # rest
            \<and> loads bad = Inl JSONDecodeError \<longrightarrow>
            receive_loop_step dec loads cbs (Data bs) buffer c =
              (case receive_loop_frames loads cbs rest c of
                 (l, None, b, c') \<Rightarrow> (True, ClientErrorDecodingJSON bad # l, b, c')
               | (l, Some e, b, c') \<Rightarrow> receive_loop_except e (ClientErrorDecodingJSON bad # l) b c'))"
proof (intro conjI impI)
  assume "loads bad = Inl JSONDecodeError"
  then show "run_frames loads pid env i (bad @ CHR 0x0A # rest) s =
              (case run_frames loads pid env (Suc i) rest s of
                 (l, b, s') \<Rightarrow> (ErrorDecodingJSON bad # l, b, s'))"
    using assms by (simp add: run_frames_dropped process_message_bad)
next
  assume "loads bad = Inl e \<and> e \<noteq> JSONDecodeError"
  then show "run_frames loads pid env i (bad @ CHR 0x0A # rest) s =
              (case run_frames loads pid env (Suc i) rest s of
                 (l, b, s') \<Rightarrow> (ErrorProcessing e # l, b, s'))"
    using assms by (simp add: run_frames_dropped process_message_bad)
next
  assume "loads bad = Inr v \<and> (\<forall>d. v \<noteq> JDict d)"
  then show "run_frames loads pid env i (bad @ CHR 0x0A # rest) s =
              (case run_frames loads pid env (Suc i) rest s of
                 (l, b, s') \<Rightarrow> (ErrorProcessing AttributeError # l, b, s'))"
    using assms by (simp add: run_frames_dropped process_message_bad)
next
  assume "loads bad = Inl JSONDecodeError"
  then show "receive_loop_frames loads cbs (bad @ CHR 0x0A # rest) c =
              (case receive_loop_frames loads cbs rest c of
                 (l, r) \<Rightarrow> (ClientErrorDecodingJSON bad # l, r))"
    using assms by (simp add: receive_loop_frames_bad)
next
  assume a: "bs \<noteq> [] \<and> dec bs = Some decoded \<and> buffer @ decoded = bad @ CHR 0x0A # rest"
  let ?now = "fst (env i)" and ?uuid = "snd (env i)"
  have "(\<exists>line. process_message loads pid ?now ?uuid bad s = ([line], s)
                \<and> (loads bad = Inl JSONDecodeError \<longrightarrow> line = ErrorDecodingJSON bad))
        \<or> (\<exists>d. loads bad = Inr (JDict d))"
  proof (cases "loads bad")
    case (Inl x)
    then show ?thesis
      by (cases "x = JSONDecodeError") (simp_all add: process_message_bad)
  next
    case (Inr v)
    then show ?thesis
      by (cases "\<exists>d. v = JDict d") (auto simp: process_message_bad)
  qed
  then show "(\<exists>line. run_step dec loads pid env i (Data bs) buffer s =
                      (case run_frames loads pid env (Suc i) rest s of
                         (l, b, s') \<Rightarrow> Open (line # l) b s')
                    \<and> (loads bad = Inl JSONDecodeError \<longrightarrow> line = ErrorDecodingJSON bad))
              \<or> (\<exists>d. loads bad = Inr (JDict d))"
  proof
    assume "\<exists>line. process_message loads pid ?now ?uuid bad s = ([line], s)
                \<and> (loads bad = Inl JSONDecodeError \<longrightarrow> line = ErrorDecodingJSON bad)"
    then obtain line where pm: "process_message loads pid ?now ?uuid bad s = ([line], s)"
      and ln: "loads bad = Inl JSONDecodeError \<longrightarrow> line = ErrorDecodingJSON bad" by blast
    have "run_step dec loads pid env i (Data bs) buffer s =
            (case run_frames loads pid env (Suc i) rest s of
               (l, b, s') \<Rightarrow> Open (line # l) b s')"
      using a
      by (simp add: run_step_def
            run_frames_dropped[where loads = loads and bad = bad and line = line
              and env = env and i = i and pid = pid and s = s, OF assms pm]
            split: prod.splits)
    with ln show ?thesis by blast
  next
    assume "\<exists>d. loads bad = Inr (JDict d)"
    then show ?thesis by blast
  qed
next
  assume a: "bs \<noteq> [] \<and> dec bs = Some decoded \<and> buffer @ decoded = bad @ CHR 0x0A # rest
            \<and> loads bad = Inl JSONDecodeError"
  then show "receive_loop_step dec loads cbs (Data bs) buffer c =
              (case receive_loop_frames loads cbs rest c of
                 (l, None, b, c') \<Rightarrow> (True, ClientErrorDecodingJSON bad # l, b, c')
               | (l, Some e, b, c') \<Rightarrow> receive_loop_except e (ClientErrorDecodingJSON bad # l) b c')"
    using assms
    by (simp add: receive_loop_step_def receive_loop_frames_bad split: prod.splits option.splits)
qed

lemma garbage_facts:
  "CHR 0x0A \<notin> set ''garbage''" "type_loads ''garbage'' = Inl JSONDecodeError"
  "utf8_encode (''garbage'' @ CHR 0x0A # leave_lobby_frame) \<noteq> []
   \<and> utf8_decode (utf8_encode (''garbage'' @ CHR 0x0A # leave_lobby_frame))
       = Some (''garbage'' @ CHR 0x0A # leave_lobby_frame)
   \<and> [] @ (''garbage'' @ CHR 0x0A # leave_lobby_frame) = ''garbage'' @ CHR 0x0A # leave_lobby_frame"
  by code_simp+

lemma leave_lobby_frame_server:
  "run_frames type_loads ''p'' (\<lambda>i. (7, [])) (Suc 0) leave_lobby_frame two_in_battle
     = ([Received (JStr ''LEAVE_LOBBY'')], [], handle_leave_lobby ''p'' 7 two_in_battle)"
proof -
  have 1: "leave_lobby_frame = envelope_text ''LEAVE_LOBBY'' @ CHR 0x0A # []"
    by (simp add: leave_lobby_frame_def)
  have 2: "CHR 0x0A \<notin> set (envelope_text ''LEAVE_LOBBY'')" by code_simp
  have 3: "type_loads (envelope_text ''LEAVE_LOBBY'') = Inr (JDict leave_lobby_dict)" by code_simp
  have 4: "dispatch ''p'' 7 [] (JDict leave_lobby_dict) two_in_battle
      = ([Received (JStr ''LEAVE_LOBBY'')], handle_leave_lobby ''p'' 7 two_in_battle)"
    by (simp add: dispatch_def leave_lobby_dict_def dict_get_def)
  show ?thesis
    unfolding 1 run_frames_frame[OF 2]
    by (simp add: process_message_def 3 4 run_frames_done)
qed

lemma leave_lobby_frame_client:
  "receive_loop_frames type_loads (\<lambda>t. None) leave_lobby_frame idle_client
     = ([ClientReceived (envelope_text ''LEAVE_LOBBY'')], None, [],
        idle_client\<lparr> receive_queue := [JDict leave_lobby_dict] \<rparr>)"
  by code_simp

theorem malformed_frame_dropped_witness:
  "run_step utf8_decode type_loads ''p'' (\<lambda>i. (7, [])) 0
     (Data (utf8_encode (''garbage'' @ CHR 0x0A # leave_lobby_frame))) [] two_in_battle
   = Open [ErrorDecodingJSON ''garbage'', Received (JStr ''LEAVE_LOBBY'')] []
       (handle_leave_lobby ''p'' 7 two_in_battle)
   \<and> receive_loop_step utf8_decode type_loads (\<lambda>t. None)
       (Data (utf8_encode (''garbage'' @ CHR 0x0A # leave_lobby_frame))) [] idle_client
     = (True, [ClientErrorDecodingJSON ''garbage'', ClientReceived (envelope_text ''LEAVE_LOBBY'')], [],
        idle_client\<lparr> receive_queue := [JDict leave_lobby_dict] \<rparr>)"
  using malformed_frame_dropped[where loads = type_loads and bad = "''garbage''"
      and rest = leave_lobby_frame and dec = utf8_decode
      and bs = "utf8_encode (''garbage'' @ CHR 0x0A # leave_lobby_frame)"
      and decoded = "''garbage'' @ CHR 0x0A # leave_lobby_frame" and buffer = "[]"
      and pid = "''p''" and env = "\<lambda>i. (7, [])" and i = 0 and s = two_in_battle
      and cbs = "\<lambda>t. None" and c = idle_client,
      OF garbage_facts(1)]
    garbage_facts(2,3)
  by (simp add: leave_lobby_frame_server leave_lobby_frame_client)

lemma byte_ascii:
  assumes "(of_char c :: nat) < 128"
  shows "(of_nat (of_char c) :: byte) < 0x80" "char_of (unat (of_nat (of_char c :: nat) :: byte)) = c"
proof -
  have u: "unat (of_nat (of_char c :: nat) :: byte) = of_char c"
    using assms by (simp add: unat_of_nat)
  show "(of_nat (of_char c) :: byte) < 0x80"
    using assms by (simp add: word_less_nat_alt u)
  show "char_of (unat (of_nat (of_char c :: nat) :: byte)) = c"
    by (simp add: u)
qed

lemma utf8_ascii:
  "\<forall>c\<in>set s. (of_char c :: nat) < 128 \<Longrightarrow> utf8_decode (utf8_encode s) = Some s"
proof (induction s)
  case Nil
  show ?case by simp
next
  case (Cons c cs)
  then have ih: "utf8_decode (utf8_encode cs) = Some cs" and c: "(of_char c :: nat) < 128" by simp_all
  show ?case
  proof (cases "utf8_encode cs")
    case Nil
    with ih have "cs = []" by simp
    with c show ?thesis by (simp add: byte_ascii)
  next
    case (Cons b bs)
    with ih c show ?thesis by (simp add: byte_ascii)
  qed
qed

lemma utf8_encode_nonempty: "s \<noteq> [] \<Longrightarrow> utf8_encode s \<noteq> []"
  by (cases s) auto

lemma deep_frame:
  assumes "1000 \<le> n"
  shows "type_loads (replicate n (CHR ''['')) = Inl RecursionError"
proof -
  from assms have n: "n \<noteq> 0" by simp
  have 1: "replicate n (CHR ''['') \<noteq> envelope_text t" for t
  proof
    assume "replicate n (CHR ''['') = envelope_text t"
    then have "hd (replicate n (CHR ''['')) = hd (envelope_text t)" by simp
    with n show False by (simp add: envelope_text_def)
  qed
  have 2: "replicate n (CHR ''['') \<noteq> ''NaN''"
  proof
    assume "replicate n (CHR ''['') = ''NaN''"
    then have "length (replicate n (CHR ''['')) = length ''NaN''" by simp
    with assms show False by simp
  qed
  show ?thesis
    using assms 1 2 by (simp add: type_loads_def Let_def list_all_iff)
qed

lemma receive_loop_frames_raises:
  "CHR 0x0A \<notin> set bad \<Longrightarrow> loads bad = Inl e \<Longrightarrow> e \<noteq> JSONDecodeError \<Longrightarrow>
   receive_loop_frames loads cbs (bad @ CHR 0x0A # rest) c = ([], Some e, rest, c)"
  by (subst receive_loop_frames.simps) (simp add: split_nl_frame)

lemma deep_frame_client:
  assumes "1000 \<le> n"
  shows "receive_loop_step utf8_decode type_loads (\<lambda>t. None)
           (Data (utf8_encode (replicate n (CHR ''['') @ CHR 0x0A # leave_lobby_frame))) [] idle_client
         = (True, [ClientErrorReceiving RecursionError], leave_lobby_frame, idle_client)"
proof -
  let ?bad = "replicate n (CHR ''['')"
  let ?chunk = "?bad @ CHR 0x0A # leave_lobby_frame"
  have "\<forall>c\<in>set leave_lobby_frame. (of_char c :: nat) < 128" by code_simp
  then have "\<forall>c\<in>set ?chunk. (of_char c :: nat) < 128" by auto
  then have dec: "utf8_decode (utf8_encode ?chunk) = Some ?chunk" by (rule utf8_ascii)
  have ne: "utf8_encode ?chunk \<noteq> []" by (rule utf8_encode_nonempty) simp
  have nl: "CHR 0x0A \<notin> set ?bad" by auto
  have "receive_loop_frames type_loads (\<lambda>t. None) ?chunk idle_client
      = ([], Some RecursionError, leave_lobby_frame, idle_client)"
    by (rule receive_loop_frames_raises[where loads = type_loads and bad = "replicate n (CHR ''['')"
          and e = RecursionError, OF nl deep_frame[OF assms]]) simp
  with dec ne show ?thesis
    by (simp add: receive_loop_step_def receive_loop_except_def)
qed

text \<open>
  The claim as stated fails in two ways. First, for bytes that are no UTF-8: the chunk holds
  the frame \<open>0xFF\<close>, which is no JSON, and after it the well-formed frame of
  \<open>LEAVE_LOBBY\<close>. \<open>data.decode()\<close> raises on the chunk: the server's thread leaves its
  loop and cleans up (the connection of \<open>p\<close> is closed and its battle ended), and the
  client prints the error and has lost the whole chunk, the well-formed frame with it.
  Second, on the client, for a frame that is no JSON and on which \<open>json.loads\<close> does not
  raise \<open>JSONDecodeError\<close>: a thousand opening brackets raise \<open>RecursionError\<close>, and
  \<open>NaN\<close> is read as a float, which is queued and on which \<open>.get\<close> raises
  \<open>AttributeError\<close>. Either exception leaves the loop over the buffer: the well-formed
  frame that follows is neither parsed nor queued, it stays in the buffer.
\<close>

theorem malformed_frame_dropped_counterexample:
  "type_loads (envelope_text ''LEAVE_LOBBY'') = Inr (JDict leave_lobby_dict)
   \<and> (case run_step utf8_decode type_loads ''p'' (\<lambda>i. (7, [])) 0
            (Data ([0xFF, 0x0A] @ utf8_encode leave_lobby_frame)) [] two_in_battle of
         Open l b s \<Rightarrow> False
       | Closed e s \<Rightarrow> \<not> running (handlers s ''p'') \<and> map_of (battles s) ''b'' = None)
   \<and> receive_loop_step utf8_decode type_loads (\<lambda>t. None)
        (Data ([0xFF, 0x0A] @ utf8_encode leave_lobby_frame)) [] idle_client
      = (True, [ClientErrorReceiving UnicodeDecodeError], [], idle_client)
   \<and> type_loads (replicate 1000 (CHR ''['')) = Inl RecursionError
   \<and> receive_loop_step utf8_decode type_loads (\<lambda>t. None)
        (Data (utf8_encode (replicate 1000 (CHR ''['') @ CHR 0x0A # leave_lobby_frame))) [] idle_client
      = (True, [ClientErrorReceiving RecursionError], leave_lobby_frame, idle_client)
   \<and> type_loads ''NaN'' = Inr JNaN
   \<and> receive_loop_step utf8_decode type_loads (\<lambda>t. None)
        (Data (utf8_encode (''NaN'' @ CHR 0x0A # leave_lobby_frame))) [] idle_client
      = (True, [ClientErrorReceiving AttributeError], leave_lobby_frame,
         idle_client\<lparr> receive_queue := [JNaN] \<rparr>)"
proof (intro conjI)
  show "type_loads (envelope_text ''LEAVE_LOBBY'') = Inr (JDict leave_lobby_dict)"
    by code_simp
  show "case run_step utf8_decode type_loads ''p'' (\<lambda>i. (7, [])) 0
            (Data ([0xFF, 0x0A] @ utf8_encode leave_lobby_frame)) [] two_in_battle of
         Open l b s \<Rightarrow> False
       | Closed e s \<Rightarrow> \<not> running (handlers s ''p'') \<and> map_of (battles s) ''b'' = None"
    by code_simp
  show "receive_loop_step utf8_decode type_loads (\<lambda>t. None)
        (Data ([0xFF, 0x0A] @ utf8_encode leave_lobby_frame)) [] idle_client
      = (True, [ClientErrorReceiving UnicodeDecodeError], [], idle_client)"
    by code_simp
  show "type_loads (replicate 1000 (CHR ''['')) = Inl RecursionError"
    by (rule deep_frame) simp
  show "receive_loop_step utf8_decode type_loads (\<lambda>t. None)
        (Data (utf8_encode (replicate 1000 (CHR ''['') @ CHR 0x0A # leave_lobby_frame))) [] idle_client
      = (True, [ClientErrorReceiving RecursionError], leave_lobby_frame, idle_client)"
    by (rule deep_frame_client) simp
  show "type_loads ''NaN'' = Inr JNaN"
    by code_simp
  show "receive_loop_step utf8_decode type_loads (\<lambda>t. None)
        (Data (utf8_encode (''NaN'' @ CHR 0x0A # leave_lobby_frame))) [] idle_client
      = (True, [ClientErrorReceiving AttributeError], leave_lobby_frame,
         idle_client\<lparr> receive_queue := [JNaN] \<rparr>)"
    by code_simp
qed

subsection \<open>One room at a time, for sessions that ask when they are free\<close>

lemma length_filter_update:
  "length (filter P (AList.update k v al))
     + (case map_of al k of None \<Rightarrow> 0 | Some old \<Rightarrow> if P (k, old) then 1 else 0)
   = length (filter P al) + (if P (k, v) then 1 else 0)"
  by (induction al) (auto split: option.splits)

lemma length_filter_delete: "length (filter P (AList.delete k al)) \<le> length (filter P al)"
  by (induction al) (auto simp: le_SucI)

lemma length_filter_update_same:
  "map_of al k = Some old \<Longrightarrow> P (k, v) = P (k, old) \<Longrightarrow>
   length (filter P (AList.update k v al)) = length (filter P al)"
  using length_filter_update[of P k v al] by (auto split: if_splits)

lemma length_filter_update_fresh:
  "map_of al k = None \<Longrightarrow>
   length (filter P (AList.update k v al)) = length (filter P al) + (if P (k, v) then 1 else 0)"
  using length_filter_update[of P k v al] by simp

lemma count_list_remove1: "count_list (remove1 x xs) y \<le> count_list xs y"
  by (induction xs) auto

lemma memberships_mono:
  "count_list (lobby s') pid \<le> count_list (lobby s) pid \<Longrightarrow>
   battle_count s' pid \<le> battle_count s pid \<Longrightarrow>
   party_count s' pid \<le> party_count s pid \<Longrightarrow>
   memberships s' pid \<le> memberships s pid"
  by (simp add: memberships_def)

lemma length_filter_update_le:
  "map_of al k = Some old \<Longrightarrow> (P (k, v) \<Longrightarrow> P (k, old)) \<Longrightarrow>
   length (filter P (AList.update k v al)) \<le> length (filter P al)"
  using length_filter_update[of P k v al] by (auto split: if_splits)

lemma end_battle_battle_count: "battle_count (end_battle k pl s) x \<le> battle_count s x"
  by (cases k) (simp_all add: battle_count_def end_battle_battles length_filter_delete)

lemma process_battle_action_battle_count:
  "battle_count (process_battle_action k p a now s) x \<le> battle_count s x"
proof (cases k)
  case None
  then show ?thesis by (simp add: process_battle_action_def)
next
  case (Some bid)
  show ?thesis
  proof (cases "map_of (battles s) bid")
    case None
    then show ?thesis by (simp add: process_battle_action_def Some)
  next
    case (Some bt0)
    define bt where "bt = bt0\<lparr> battle_last_activity := now \<rparr>"
    define s1 where "s1 = s\<lparr> battles := AList.update bid bt (battles s) \<rparr>"
    define role where "role = (if p = player1 bt then ''player1'' else ''player2'')"
    define opp where "opp = (if role = ''player1'' then player2 bt else player1 bt)"
    define orole where "orole = (if role = ''player1'' then ''player2'' else ''player1'')"
    let ?P = "\<lambda>(bid :: string, bt :: battle). player1 bt = x \<or> player2 bt = x"
    have eq: "process_battle_action k p a now s =
       (if current_turn bt \<noteq> role then s1
        else if opp \<notin> clients s1 then end_battle (Some bid) (Some p) s1
        else send opp (battle_action bid a orole)
               (s1\<lparr> battles := AList.update bid (bt\<lparr> current_turn := orole \<rparr>) (battles s1) \<rparr>))"
      by (simp only: process_battle_action_def \<open>k = Some bid\<close> Some option.case Let_def
          bt_def s1_def role_def opp_def orole_def)
    have u1: "length (filter ?P (AList.update bid bt (battles s))) = length (filter ?P (battles s))"
      by (rule length_filter_update_same[OF Some]) (simp add: bt_def)
    have u2: "length (filter ?P (AList.update bid (bt\<lparr> current_turn := orole \<rparr>) (battles s)))
        = length (filter ?P (battles s))"
      by (rule length_filter_update_same[OF Some]) (simp add: bt_def)
    have 1: "battle_count s1 x = battle_count s x" by (simp add: battle_count_def s1_def u1)
    have 2: "battle_count (end_battle (Some bid) (Some p) s1) x \<le> battle_count s x"
      using end_battle_battle_count[of "Some bid" "Some p" s1 x] 1 by simp
    have 3: "battle_count (send opp (battle_action bid a orole)
               (s1\<lparr> battles := AList.update bid (bt\<lparr> current_turn := orole \<rparr>) (battles s1) \<rparr>)) x
            = battle_count s x"
      by (simp add: battle_count_def s1_def u2)
    from 1 2 3 show ?thesis unfolding eq by simp
  qed
qed

lemma remove_from_adventure_party_count:
  "party_count (snd (remove_from_adventure k pid now s)) x \<le> party_count s x"
proof -
  show ?thesis
    by (auto simp: remove_from_adventure_def Let_def party_count_def pop_def length_filter_delete
        intro!: length_filter_update_le dest: in_set_takeD in_set_dropD split: option.splits sum.splits)
qed

lemma process_adventure_update_party_count:
  "party_count (process_adventure_update k pid d now s) x = party_count s x"
  using process_adventure_update_parties[of k pid d now s]
  by (auto simp: party_count_def intro!: length_filter_update_same)

lemma join_adventure_party_party_count:
  "x \<noteq> pid \<Longrightarrow> party_count (snd (join_adventure_party k pid now s)) x = party_count s x"
  "party_count (snd (join_adventure_party k pid now s)) pid \<le> party_count s pid + 1"
proof -
  note j = join_adventure_party_parties[of k pid now s]
  have m: "members (joined p pid c now) = members p @ [pid]" for p c
    by (simp add: joined_def Let_def)
  show "party_count (snd (join_adventure_party k pid now s)) x = party_count s x" if "x \<noteq> pid"
    using j that by (auto simp: party_count_def m intro!: length_filter_update_same)
  show "party_count (snd (join_adventure_party k pid now s)) pid \<le> party_count s pid + 1"
    using j
  proof (elim disjE exE conjE)
    fix aid p
    assume "map_of (adventure_parties s) aid = Some p"
      and e: "adventure_parties (snd (join_adventure_party k pid now s)) =
         AList.update aid (joined p pid (handlers s pid) now) (adventure_parties s)"
    show ?thesis
      using length_filter_update[of "\<lambda>(aid, p). pid \<in> set (members p)" aid
          "joined p pid (handlers s pid) now" "adventure_parties s"]
      by (simp add: party_count_def e split: option.splits if_splits)
  qed (simp add: party_count_def)
qed

lemma memberships_frame [simp]:
  "memberships (send p m s) x = memberships s x"
  "memberships (upd_handler p f s) x = memberships s x"
  "memberships (accept_connection p s) x = memberships s x"
  by (simp_all add: memberships_def battle_count_def party_count_def)

lemma count_frame [simp]:
  "battle_count (send p m s) x = battle_count s x"
  "battle_count (upd_handler p f s) x = battle_count s x"
  "party_count (send p m s) x = party_count s x"
  "party_count (upd_handler p f s) x = party_count s x"
  by (simp_all add: battle_count_def party_count_def)

lemma match_players_memberships:
  assumes "bid \<notin> fst ` set (battles s)"
  shows "memberships (match_players bid now s) x \<le> memberships s x"
proof (cases "length (lobby s) < 2")
  case True
  then show ?thesis by (simp add: match_players_def)
next
  case False
  then obtain a b rest where lb: "lobby s = a # b # rest"
    by (cases "lobby s"; cases "tl (lobby s)") auto
  have fresh: "map_of (battles s) bid = None" using assms by (simp add: map_of_eq_None_iff)
  have "battle_count (match_players bid now s) x = battle_count s x + (if a = x \<or> b = x then 1 else 0)"
    by (simp add: battle_count_def match_players_battles[OF lb] length_filter_update_fresh[OF fresh])
  moreover have "party_count (match_players bid now s) x = party_count s x"
    by (simp add: party_count_def)
  moreover have "lobby (match_players bid now s) = rest" by (rule match_players_lobby[OF lb])
  ultimately show ?thesis by (auto simp: memberships_def lb)
qed

lemma handle_join_lobby_memberships:
  "memberships (handle_join_lobby pid d now s) x \<le> memberships s x + (if x = pid then 1 else 0)"
  by (simp add: memberships_def battle_count_def party_count_def handle_join_lobby_lobby)

lemma handle_leave_lobby_memberships:
  "memberships (handle_leave_lobby pid now s) x \<le> memberships s x"
  by (rule memberships_mono) (simp_all add: battle_count_def party_count_def count_list_remove1)

lemma handle_battle_action_memberships:
  "memberships (handle_battle_action pid d now s) x \<le> memberships s x"
  by (rule memberships_mono)
     (simp_all add: party_count_def handle_battle_action_def process_battle_action_battle_count)

lemma handle_create_adventure_memberships:
  assumes "uuid \<notin> fst ` set (adventure_parties s)"
  shows "memberships (handle_create_adventure pid d uuid now s) x
           \<le> memberships s x + (if x = pid then 1 else 0)"
proof -
  have fresh: "map_of (adventure_parties s) uuid = None" using assms by (simp add: map_of_eq_None_iff)
  show ?thesis
    by (simp add: memberships_def battle_count_def party_count_def handle_create_adventure_parties
        length_filter_update_fresh[OF fresh])
qed

lemma handle_join_adventure_memberships:
  "memberships (snd (handle_join_adventure pid d now s)) x
     \<le> memberships s x + (if x = pid then 1 else 0)"
proof -
  let ?s1 = "upd_handler pid (\<lambda>c. c\<lparr>creature := dict_get d ''creature'' (JDict [])\<rparr>) s"
  let ?j = "snd (join_adventure_party (dict_get d ''party_id'' (JStr [])) pid now ?s1)"
  have "party_count (snd (handle_join_adventure pid d now s)) x = party_count ?j x"
    by (simp add: party_count_def handle_join_adventure_parties)
  moreover have "party_count ?j x \<le> party_count ?s1 x + (if x = pid then 1 else 0)"
    using join_adventure_party_party_count(1)[of x pid "dict_get d ''party_id'' (JStr [])" now ?s1]
      join_adventure_party_party_count(2)[of "dict_get d ''party_id'' (JStr [])" pid now ?s1]
    by (cases "x = pid") simp_all
  ultimately show ?thesis
    by (simp add: memberships_def battle_count_def)
qed

lemma handle_adventure_update_memberships:
  "memberships (handle_adventure_update pid d now s) x \<le> memberships s x"
  by (rule memberships_mono)
     (simp_all add: battle_count_def handle_adventure_update_def process_adventure_update_party_count)

lemma handle_get_adventure_parties_memberships:
  "memberships (snd (handle_get_adventure_parties pid s)) x = memberships s x"
  by (simp add: memberships_def battle_count_def party_count_def)

lemma clean_up_memberships: "memberships (snd (clean_up pid now s)) x \<le> memberships s x"
proof -
  define s1 where "s1 = (if in_lobby (handlers s pid) then remove_from_lobby pid now s else s)"
  define s2 where "s2 = (if in_battle (handlers s1 pid)
                   then end_battle (battle_id (handlers s1 pid)) (Some pid) s1 else s1)"
  define s3 where "s3 = (if in_adventure (handlers s2 pid)
                   then snd (remove_from_adventure (adventure_id (handlers s2 pid)) pid now s2) else s2)"
  have c: "snd (clean_up pid now s) = s3
      \<or> snd (clean_up pid now s) = upd_handler pid (\<lambda>c. c\<lparr> running := False \<rparr>) s3"
    using clean_up_snd[of pid now s] unfolding s1_def s2_def s3_def .
  have 1: "memberships s1 x \<le> memberships s x"
    by (rule memberships_mono) (simp_all add: s1_def battle_count_def party_count_def count_list_remove1)
  have 2: "memberships s2 x \<le> memberships s1 x"
    by (rule memberships_mono) (simp_all add: s2_def party_count_def end_battle_battle_count)
  have 3: "memberships s3 x \<le> memberships s2 x"
    by (rule memberships_mono) (simp_all add: s3_def battle_count_def remove_from_adventure_party_count)
  from c 1 2 3 show ?thesis by auto
qed

lemma dispatch_memberships:
  assumes "uuid \<notin> fst ` set (adventure_parties s)"
  shows "memberships (snd (dispatch pid now uuid data s)) x
      \<le> memberships s x + (if asks_room (Frame pid now uuid data) = Some x then 1 else 0)"
proof (cases data)
  case (JDict d)
  define mt where "mt = dict_get d ''type'' (JStr [])"
  have eq: "snd (dispatch pid now uuid data s) =
         (if mt = JStr ''JOIN_LOBBY'' then handle_join_lobby pid d now s
          else if mt = JStr ''LEAVE_LOBBY'' then handle_leave_lobby pid now s
          else if mt = JStr ''BATTLE_ACTION'' then handle_battle_action pid d now s
          else if mt = JStr ''CREATE_ADVENTURE'' then handle_create_adventure pid d uuid now s
          else if mt = JStr ''JOIN_ADVENTURE'' then snd (handle_join_adventure pid d now s)
          else if mt = JStr ''ADVENTURE_UPDATE'' then handle_adventure_update pid d now s
          else if mt = JStr ''GET_ADVENTURE_PARTIES'' then snd (handle_get_adventure_parties pid s)
          else s)"
    by (simp only: dispatch_snd JDict json.case Let_def mt_def)
  have ask: "asks_room (Frame pid now uuid data) =
      (if mt = JStr ''JOIN_LOBBY'' \<or> mt = JStr ''CREATE_ADVENTURE'' \<or> mt = JStr ''JOIN_ADVENTURE''
       then Some pid else None)"
    by (simp add: JDict mt_def)
  note b = handle_join_lobby_memberships[of pid d now s x]
    handle_leave_lobby_memberships[of pid now s x]
    handle_battle_action_memberships[of pid d now s x]
    handle_create_adventure_memberships[OF assms, of pid d now x]
    handle_join_adventure_memberships[of pid d now s x]
    handle_adventure_update_memberships[of pid d now s x]
    handle_get_adventure_parties_memberships[of pid s x]
  consider (join_lobby) "mt = JStr ''JOIN_LOBBY''" | (leave_lobby) "mt = JStr ''LEAVE_LOBBY''"
    | (battle_action) "mt = JStr ''BATTLE_ACTION''" | (create) "mt = JStr ''CREATE_ADVENTURE''"
    | (join) "mt = JStr ''JOIN_ADVENTURE''" | (update) "mt = JStr ''ADVENTURE_UPDATE''"
    | (get) "mt = JStr ''GET_ADVENTURE_PARTIES''"
    | (other) "mt \<noteq> JStr ''JOIN_LOBBY''" "mt \<noteq> JStr ''LEAVE_LOBBY''"
        "mt \<noteq> JStr ''BATTLE_ACTION''" "mt \<noteq> JStr ''CREATE_ADVENTURE''"
        "mt \<noteq> JStr ''JOIN_ADVENTURE''" "mt \<noteq> JStr ''ADVENTURE_UPDATE''"
        "mt \<noteq> JStr ''GET_ADVENTURE_PARTIES''"
    by blast
  then show ?thesis
  proof cases
    case join_lobby
    then show ?thesis unfolding eq ask using b(1) by auto
  next
    case leave_lobby
    then show ?thesis unfolding eq ask using b(2) by simp
  next
    case battle_action
    then show ?thesis unfolding eq ask using b(3) by simp
  next
    case create
    then show ?thesis unfolding eq ask using b(4) by auto
  next
    case join
    then show ?thesis unfolding eq ask using b(5) by auto
  next
    case update
    then show ?thesis unfolding eq ask using b(6) by simp
  next
    case get
    then show ?thesis unfolding eq ask using b(7) by simp
  next
    case other
    then show ?thesis unfolding eq ask by simp
  qed
qed (simp_all add: dispatch_snd)

lemma step_memberships:
  assumes "enabled e s"
  shows "memberships (step e s) x \<le> memberships s x + (if asks_room e = Some x then 1 else 0)"
proof (cases e)
  case (Accept pid)
  then show ?thesis by simp
next
  case (Frame pid now uuid data)
  with assms have "uuid \<notin> fst ` set (adventure_parties s)" by simp
  from dispatch_memberships[OF this, of pid now data x] show ?thesis by (simp add: Frame)
next
  case (Match bid now)
  with assms have "bid \<notin> fst ` set (battles s)" by simp
  from match_players_memberships[OF this, of now x] show ?thesis by (simp add: Match)
next
  case (Disconnect pid now)
  then show ?thesis using clean_up_memberships[of pid now s x] by simp
qed

lemma step_one_room:
  assumes "\<forall>x. memberships s x \<le> 1" "enabled e s" "asks_when_free e s"
  shows "\<forall>x. memberships (step e s) x \<le> 1"
proof
  fix x
  note b = step_memberships[OF assms(2), of x]
  show "memberships (step e s) x \<le> 1"
  proof (cases "asks_room e = Some x")
    case True
    with assms(3) have "memberships s x = 0" by (simp add: asks_when_free_def)
    with b True show ?thesis by simp
  next
    case False
    with b assms(1) show ?thesis by (auto intro: le_trans)
  qed
qed

lemma orderly_run_one_room:
  "\<forall>x. memberships s x \<le> 1 \<Longrightarrow> orderly_run evs s \<Longrightarrow> \<forall>x. memberships (run_events evs s) x \<le> 1"
proof (induction evs arbitrary: s)
  case Nil
  then show ?case by (simp add: run_events_Nil)
next
  case (Cons e evs)
  from Cons.prems have e: "enabled e s" "asks_when_free e s" and r: "orderly_run evs (step e s)"
    by simp_all
  note step_one_room[OF Cons.prems(1) e] r
  from Cons.IH[OF this] show ?case by (simp add: run_events_Cons)
qed

text \<open>
  Claim C5, as the code has it. Count the rooms of a session: its places in the lobby queue,
  the battle rooms it is a participant of, the parties it is a member of. In every state
  reached from the initial one by events that can happen (accepts, messages of any content,
  matchmaking passes, disconnects), in which a session sends \<open>JOIN_LOBBY\<close>,
  \<open>CREATE_ADVENTURE\<close> or \<open>JOIN_ADVENTURE\<close> only while it is in no room, every session is
  in at most one room.
\<close>

theorem one_room_when_orderly:
  "orderly_run evs init_server \<Longrightarrow> memberships (run_events evs init_server) pid \<le> 1"
  using orderly_run_one_room[of init_server evs]
  by (simp add: memberships_def battle_count_def party_count_def)

lemma orderly_events_orderly: "orderly_run orderly_events init_server"
  by code_simp

theorem one_room_when_orderly_witness:
  "orderly_run orderly_events init_server
   \<and> memberships (run_events orderly_events init_server) ''q'' \<le> 1
   \<and> party_count (run_events orderly_events init_server) ''q'' = 1"
proof -
  have "party_count (run_events orderly_events init_server) ''q'' = 1" by code_simp
  with one_room_when_orderly[OF orderly_events_orderly, of "''q''"] orderly_events_orderly
  show ?thesis by simp
qed

text \<open>
  The claim as stated fails: the handlers of \<open>JOIN_LOBBY\<close> and \<open>CREATE_ADVENTURE\<close> do not
  look at the rooms of the sender. Session \<open>q\<close>, in battle \<open>b\<close>, joins the lobby and
  creates a party, and is then in the lobby queue, in the battle and in the party at once.
\<close>

theorem one_room_counterexample:
  "enabled_run greedy_events init_server
   \<and> lobby q_everywhere = [''q'']
   \<and> map (\<lambda>(bid, bt). (bid, player1 bt, player2 bt)) (battles q_everywhere) = [(''b'', ''p'', ''q'')]
   \<and> map (\<lambda>(aid, p). (aid, members p)) (adventure_parties q_everywhere) = [(''a'', [''q''])]
   \<and> memberships q_everywhere ''q'' = 3"
  by code_simp

subsection \<open>Matchmaking pairs the queue first in, first out\<close>

lemma joiners_simps [simp]:
  "joiners [] = []" "joiners (e # es) = joiner e @ joiners es"
  "joiners (xs @ ys) = joiners xs @ joiners ys"
  by (simp_all add: joiners_def)

lemma step_clients: "clients s \<subseteq> clients (step e s)"
proof (cases e)
  case (Frame pid now uuid data)
  have "clients (snd (dispatch pid now uuid data s)) = clients s"
    by (cases rule: dispatch_cases[of pid now uuid data s]) simp_all
  with Frame show ?thesis by simp
qed auto

lemma map_update_same:
  "map_of al k = Some v0 \<Longrightarrow> f v = f v0 \<Longrightarrow>
   map (\<lambda>(k, b). f b) (AList.update k v al) = map (\<lambda>(k, b). f b) al"
  by (induction al) (auto split: if_splits)

lemma paired_update:
  assumes "map_of (battles s) bid = Some bt0" "player1 bt = player1 bt0" "player2 bt = player2 bt0"
  shows "map (\<lambda>(bid, bt). (player1 bt, player2 bt)) (AList.update bid bt (battles s)) = paired s"
  unfolding paired_def
  using map_update_same[where f = "\<lambda>bt. (player1 bt, player2 bt)", OF assms(1), of bt] assms(2,3)
  by simp

lemma players_paired:
  assumes "map_of (battles s) bid = Some bt"
  shows "player1 bt \<in> set (flat (paired s))" "player2 bt \<in> set (flat (paired s))"
proof -
  from assms have "(bid, bt) \<in> set (battles s)" by (rule map_of_SomeD)
  then have "(player1 bt, player2 bt) \<in> set (paired s)" by (force simp: paired_def)
  then show "player1 bt \<in> set (flat (paired s))" "player2 bt \<in> set (flat (paired s))"
    by (force simp: flat_def)+
qed

lemma process_battle_action_paired:
  assumes "set (flat (paired s)) \<subseteq> clients s"
  shows "paired (process_battle_action k p a now s) = paired s"
proof (cases k)
  case None
  then show ?thesis by (simp add: process_battle_action_def)
next
  case (Some bid)
  show ?thesis
  proof (cases "map_of (battles s) bid")
    case None
    then show ?thesis by (simp add: process_battle_action_def Some)
  next
    case (Some bt0)
    define bt where "bt = bt0\<lparr> battle_last_activity := now \<rparr>"
    define s1 where "s1 = s\<lparr> battles := AList.update bid bt (battles s) \<rparr>"
    define role where "role = (if p = player1 bt then ''player1'' else ''player2'')"
    define opp where "opp = (if role = ''player1'' then player2 bt else player1 bt)"
    define orole where "orole = (if role = ''player1'' then ''player2'' else ''player1'')"
    have eq: "process_battle_action k p a now s =
       (if current_turn bt \<noteq> role then s1
        else if opp \<notin> clients s1 then end_battle (Some bid) (Some p) s1
        else send opp (battle_action bid a orole)
               (s1\<lparr> battles := AList.update bid (bt\<lparr> current_turn := orole \<rparr>) (battles s1) \<rparr>))"
      by (simp only: process_battle_action_def \<open>k = Some bid\<close> Some option.case Let_def
          bt_def s1_def role_def opp_def orole_def)
    have "opp = player1 bt0 \<or> opp = player2 bt0" by (simp add: opp_def bt_def)
    with players_paired[OF Some] assms have opp: "opp \<in> clients s1" by (auto simp: s1_def)
    have 1: "paired s1 = paired s"
      using paired_update[OF Some, of bt] by (simp add: paired_def s1_def bt_def)
    have 2: "paired (send opp (battle_action bid a orole)
               (s1\<lparr> battles := AList.update bid (bt\<lparr> current_turn := orole \<rparr>) (battles s1) \<rparr>))
            = paired s"
      using paired_update[OF Some, of "bt\<lparr> current_turn := orole \<rparr>"]
      by (simp add: paired_def s1_def bt_def)
    from 1 2 opp show ?thesis unfolding eq by simp
  qed
qed

lemma frame_keeps_lobby:
  assumes "\<not> is_join_lobby (Frame pid now uuid data)" "\<not> is_leave_lobby (Frame pid now uuid data)"
    and "set (flat (paired s)) \<subseteq> clients s"
  shows "lobby (snd (dispatch pid now uuid data s)) = lobby s
       \<and> paired (snd (dispatch pid now uuid data s)) = paired s"
proof (cases data)
  case (JDict d)
  define mt where "mt = dict_get d ''type'' (JStr [])"
  from assms(1,2) JDict have ne: "mt \<noteq> JStr ''JOIN_LOBBY''" "mt \<noteq> JStr ''LEAVE_LOBBY''"
    by (simp_all add: mt_def)
  have eq: "snd (dispatch pid now uuid data s) =
         (if mt = JStr ''BATTLE_ACTION'' then handle_battle_action pid d now s
          else if mt = JStr ''CREATE_ADVENTURE'' then handle_create_adventure pid d uuid now s
          else if mt = JStr ''JOIN_ADVENTURE'' then snd (handle_join_adventure pid d now s)
          else if mt = JStr ''ADVENTURE_UPDATE'' then handle_adventure_update pid d now s
          else if mt = JStr ''GET_ADVENTURE_PARTIES'' then snd (handle_get_adventure_parties pid s)
          else s)"
    using ne by (simp add: dispatch_snd JDict Let_def mt_def)
  have b: "paired (handle_battle_action pid d now s) = paired s"
    using process_battle_action_paired[OF assms(3)] by (simp add: handle_battle_action_def)
  have o: "paired (handle_create_adventure pid d uuid now s) = paired s"
    "paired (snd (handle_join_adventure pid d now s)) = paired s"
    "paired (handle_adventure_update pid d now s) = paired s"
    "paired (snd (handle_get_adventure_parties pid s)) = paired s"
    by (simp_all add: paired_def)
  show ?thesis unfolding eq by (simp add: b o)
qed (simp_all add: dispatch_snd)

lemma enabled_run_take: "enabled_run xs s \<Longrightarrow> enabled_run (take n xs) s"
proof (induction xs arbitrary: n s)
  case Nil
  then show ?case by simp
next
  case (Cons e es)
  then show ?case by (cases n) simp_all
qed

lemma enabled_run_append: "enabled_run (xs @ ys) s \<Longrightarrow> enabled_run xs s"
  by (induction xs arbitrary: s) simp_all

lemma lobby_run_inv:
  assumes "enabled_run evs s"
    and "\<forall>e\<in>set evs. \<not> is_leave_lobby e \<and> \<not> is_disconnect e"
    and "distinct (joiners evs)"
    and "set (joiners evs) \<inter> set (flat (paired s) @ lobby s) = {}"
    and "set (flat (paired s) @ lobby s) \<subseteq> clients s"
  shows "flat (paired (run_events evs s)) @ lobby (run_events evs s) = flat (paired s) @ lobby s @ joiners evs"
  using assms
proof (induction evs arbitrary: s)
  case Nil
  then show ?case by (simp add: run_events_Nil)
next
  case (Cons e evs)
  define s' where "s' = step e s"
  from Cons.prems(1) have en: "enabled e s" and rest0: "enabled_run evs s'" by (simp_all add: s'_def)
  from Cons.prems(2) have stay: "\<not> is_leave_lobby e" "\<not> is_disconnect e"
    and rest1: "\<forall>e\<in>set evs. \<not> is_leave_lobby e \<and> \<not> is_disconnect e" by simp_all
  from Cons.prems(3) have d1: "distinct (joiners evs)" and dj: "set (joiner e) \<inter> set (joiners evs) = {}"
    by simp_all
  from Cons.prems(4) have new: "set (joiner e) \<inter> set (flat (paired s) @ lobby s) = {}"
    and old: "set (joiners evs) \<inter> set (flat (paired s) @ lobby s) = {}" by auto
  note reg = Cons.prems(5)
  have sub: "clients s \<subseteq> clients s'" unfolding s'_def by (rule step_clients)
  have one: "flat (paired s') @ lobby s' = flat (paired s) @ lobby s @ joiner e
      \<and> set (joiner e) \<subseteq> clients s"
  proof (cases e)
    case (Accept pid)
    then show ?thesis by (simp add: s'_def paired_def)
  next
    case (Disconnect pid now)
    with stay show ?thesis by simp
  next
    case (Match bid now)
    have st: "s' = match_players bid now s" by (simp add: s'_def Match)
    from en Match have fresh: "bid \<notin> fst ` set (battles s)" by simp
    show ?thesis
    proof (cases "length (lobby s) < 2")
      case True
      then have "s' = s" by (simp add: st match_players_def)
      then show ?thesis by (simp add: Match)
    next
      case False
      then obtain a b rest where lb: "lobby s = a # b # rest"
        by (cases "lobby s"; cases "tl (lobby s)") auto
      have l: "lobby s' = rest" by (simp add: st match_players_lobby[OF lb])
      have p: "paired s' = paired s @ [(a, b)]"
        by (simp add: st paired_match[OF lb fresh])
      show ?thesis by (simp add: l p lb Match flat_def)
    qed
  next
    case (Frame pid now uuid data)
    from en Frame have pid: "pid \<in> clients s" by simp
    show ?thesis
    proof (cases "is_join_lobby e")
      case True
      then obtain pid' now' uuid' d where ev: "e = Frame pid' now' uuid' (JDict d)"
        and st: "step e s = handle_join_lobby pid' d now' s"
        by (rule step_join_lobby)
      from ev Frame have same: "pid' = pid" by simp
      from True Frame have j: "joiner e = [pid]" by simp
      from new j have notin: "pid \<notin> set (lobby s)" by auto
      have l: "lobby s' = lobby s @ [pid]"
        using notin by (simp add: s'_def st same handle_join_lobby_lobby)
      have b: "battles s' = battles s"
        by (simp add: s'_def st handle_join_lobby_battles)
      have p: "paired s' = paired s" by (simp add: paired_def b)
      show ?thesis using pid by (simp add: l p j)
    next
      case False
      with Frame have j: "joiner e = []" by simp
      from reg have r: "set (flat (paired s)) \<subseteq> clients s" by simp
      from frame_keeps_lobby[OF _ _ r, of pid now uuid data] False stay(1) Frame
      have "lobby s' = lobby s \<and> paired s' = paired s" by (simp add: s'_def)
      then show ?thesis by (simp add: j)
    qed
  qed
  then have eq: "flat (paired s') @ lobby s' = flat (paired s) @ lobby s @ joiner e"
    and jr: "set (joiner e) \<subseteq> clients s" by simp_all
  have d3: "set (joiners evs) \<inter> set (flat (paired s') @ lobby s') = {}"
    unfolding eq using old dj by auto
  have d4: "set (flat (paired s') @ lobby s') \<subseteq> clients s'"
    unfolding eq using reg jr sub by auto
  from Cons.IH[OF rest0 rest1 d1 d3 d4]
  have "flat (paired (run_events evs s')) @ lobby (run_events evs s')
      = flat (paired s') @ lobby s' @ joiners evs" .
  then have "flat (paired (run_events evs s')) @ lobby (run_events evs s')
      = flat (paired s) @ lobby s @ joiner e @ joiners evs"
    using eq by (metis append.assoc)
  then show ?case by (simp add: run_events_Cons s'_def)
qed

lemma joiners_ticks: "\<forall>e\<in>set ticks. is_match e \<Longrightarrow> joiners ticks = []"
proof (induction ticks)
  case Nil
  then show ?case by simp
next
  case (Cons e ticks)
  then show ?case by (cases e) simp_all
qed

lemma joiners_take_distinct: "distinct (joiners evs) \<Longrightarrow> distinct (joiners (take n evs))"
proof -
  assume d: "distinct (joiners evs)"
  have "joiners evs = joiners (take n evs) @ joiners (drop n evs)"
    by (metis append_take_drop_id joiners_simps(3))
  with d show ?thesis by simp
qed

text \<open>
  Claim C1, for sessions that join once. Take a run of events that can happen (the ids
  drawn from \<open>uuid4\<close> are new, messages come from connected sessions) in which nobody sends
  \<open>LEAVE_LOBBY\<close> or disconnects and no session sends \<open>JOIN_LOBBY\<close> twice, whatever else
  the sessions send, followed by at least \<open>N div 2\<close> further passes of the matchmaking
  loop, \<open>N\<close> being the number of joiners. Then the battle rooms are, in the order of their
  creation, exactly the first joiner paired with the second, the third with the fourth, and
  so on: there are \<open>N div 2\<close> of them, no session is in two rooms or twice in one, an odd
  last joiner is left in the queue, and at every moment of the run the paired sessions
  followed by the queue are the joiners so far in their order of arrival (a paired session
  is out of the queue at once).
\<close>

theorem matchmaking_fifo:
  assumes can: "enabled_run (evs @ ticks) init_server"
    and stay: "\<forall>e\<in>set evs. \<not> is_leave_lobby e \<and> \<not> is_disconnect e"
    and once: "distinct (joiners evs)"
    and ticks: "\<forall>e\<in>set ticks. is_match e"
    and enough: "length (joiners evs) div 2 \<le> length ticks"
  shows "paired (run_events (evs @ ticks) init_server) = pair_up (joiners evs)
       \<and> length (battles (run_events (evs @ ticks) init_server)) = length (joiners evs) div 2
       \<and> lobby (run_events (evs @ ticks) init_server) = drop (2 * (length (joiners evs) div 2)) (joiners evs)
       \<and> distinct (flat (paired (run_events (evs @ ticks) init_server)))
       \<and> (\<forall>n. flat (paired (run_events (take n (evs @ ticks)) init_server))
                 @ lobby (run_events (take n (evs @ ticks)) init_server)
               = joiners (take n (evs @ ticks)))"
proof -
  let ?all = "evs @ ticks"
  let ?s = "run_events ?all init_server"
  have tick: "\<not> is_leave_lobby e \<and> \<not> is_disconnect e" if "is_match e" for e
    using that by (cases e) simp_all
  have all: "\<forall>e\<in>set ?all. \<not> is_leave_lobby e \<and> \<not> is_disconnect e"
    using stay ticks tick by auto
  have j_all: "joiners ?all = joiners evs" by (simp add: joiners_ticks[OF ticks])
  have dall: "distinct (joiners ?all)" using once by (simp only: j_all)
  have prefix: "flat (paired (run_events (take n ?all) init_server)) @ lobby (run_events (take n ?all) init_server)
      = joiners (take n ?all)" for n
  proof -
    have 1: "\<forall>e\<in>set (take n ?all). \<not> is_leave_lobby e \<and> \<not> is_disconnect e"
      using all by (meson in_set_takeD)
    have "flat (paired (run_events (take n ?all) init_server)) @ lobby (run_events (take n ?all) init_server)
         = flat (paired init_server) @ lobby init_server @ joiners (take n ?all)"
      by (rule lobby_run_inv[OF enabled_run_take[OF can] 1 joiners_take_distinct[OF dall]])
         (simp_all add: flat_def)
    then show ?thesis by (simp add: flat_def)
  qed
  have whole: "flat (paired ?s) @ lobby ?s = joiners evs"
    using prefix[of "length ?all"] by (simp add: joiners_ticks[OF ticks])
  have mid: "flat (paired (run_events evs init_server)) @ lobby (run_events evs init_server) = joiners evs"
    using prefix[of "length evs"] by simp
  have "length (lobby (run_events evs init_server)) \<le> length (joiners evs)"
    using arg_cong[OF mid, of length] by simp
  then have "length (lobby (run_events evs init_server)) div 2 \<le> length ticks"
    using enough by (meson div_le_mono le_trans)
  then have short: "length (lobby ?s) < 2"
    using ticks_drain[OF ticks, of "run_events evs init_server"]
    by (simp add: run_events_append min_absorb2)
  from flat_pair_up[OF whole short]
  have p: "paired ?s = pair_up (joiners evs)"
    and l: "lobby ?s = drop (2 * (length (joiners evs) div 2)) (joiners evs)" by simp_all
  have n: "length (battles ?s) = length (joiners evs) div 2"
    using arg_cong[OF p, of length] by (simp add: paired_def length_pair_up)
  have d: "distinct (flat (paired ?s))"
    using once whole by (metis distinct_append)
  from p n l d prefix show ?thesis by blast
qed

theorem matchmaking_fifo_witness:
  "enabled_run (three_join_events @ [Match ''m2'' 5]) init_server
   \<and> joiners three_join_events = [''a'', ''b'', ''c'']
   \<and> paired (run_events (three_join_events @ [Match ''m2'' 5]) init_server) = [(''a'', ''b'')]
   \<and> lobby (run_events (three_join_events @ [Match ''m2'' 5]) init_server) = [''c'']
   \<and> length (battles (run_events (three_join_events @ [Match ''m2'' 5]) init_server)) = 1"
proof -
  have en: "enabled_run (three_join_events @ [Match ''m2'' 5]) init_server" by code_simp
  have j: "joiners three_join_events = [''a'', ''b'', ''c'']" by code_simp
  have st: "\<forall>e\<in>set three_join_events. \<not> is_leave_lobby e \<and> \<not> is_disconnect e"
    by (simp add: three_join_events_def join_lobby_msg_def dict_get_def)
  show ?thesis
    using matchmaking_fifo[OF en st] en j
    by simp
qed

text \<open>
  The claim as stated fails when a session sends \<open>JOIN_LOBBY\<close> a second time. Three
  sessions \<open>p\<close>, \<open>q\<close>, \<open>r\<close> send \<open>JOIN_LOBBY\<close>, nobody leaves or disconnects, and every
  event of the run can happen; \<open>q\<close> sends it again while it is in battle \<open>b\<close>, which
  \<open>handle_join_lobby\<close> accepts. The matchmaker makes two rooms out of three sessions, not
  one, and \<open>q\<close> is in both, paired a second time.
\<close>

theorem matchmaking_fifo_counterexample:
  "enabled_run rematch_events init_server
   \<and> list_all (\<lambda>e. \<not> is_leave_lobby e \<and> \<not> is_disconnect e) rematch_events
   \<and> joiners rematch_events = [''p'', ''q'', ''q'', ''r'']
   \<and> remdups (joiners rematch_events) = [''p'', ''q'', ''r'']
   \<and> lobby q_rematched = []
   \<and> paired q_rematched = [(''p'', ''q''), (''q'', ''r'')]
   \<and> length (battles q_rematched) = 2
   \<and> length (remdups (joiners rematch_events)) div 2 = 1
   \<and> \<not> distinct (flat (paired q_rematched))"
  by code_simp

end
